theory Spec2Isabelle
  imports Complex_Main
begin

section \<open>Shared modelling conventions\<close>

text \<open>
  Python ints are \<open>int\<close>; sizes that the imaging library keeps non-negative are
  \<open>nat\<close>. Python floats are IEEE binary64 values and numpy \<open>float32\<close> values are
  IEEE binary32 values: both are modelled as the reals they denote, and every arithmetic
  operation on them is the exact operation followed by rounding to the format (section
  \<open>Floating-point arithmetic\<close>). A float literal that is only stored and passed on,
  such as a default value, is written as the decimal fraction of its source text. The
  raster operations of the edge mask compare distances of a few pixels, which are held
  as reals. Every exception the modelled code can raise is a value of \<open>py_error\<close>,
  returned on the left of a sum.
\<close>

datatype py_error =
    ZeroDivisionError
  | IndexError
  | ValueError string

text \<open>
  A single-band raster image as seen through the imaging library: its size and a pixel
  access object (\<open>img.load()\<close>), indexed by \<open>(x, y)\<close>.
\<close>

record 'p image =
  width :: nat
  height :: nat
  px :: "nat \<times> nat \<Rightarrow> 'p"

text \<open>\<open>solid w h c\<close> is the image of the given size whose every pixel is \<open>c\<close>.\<close>

definition solid :: "nat \<Rightarrow> nat \<Rightarrow> 'p \<Rightarrow> 'p image" where
  "solid w h c = \<lparr>width = w, height = h, px = (\<lambda>_. c)\<rparr>"

section \<open>Floating-point arithmetic\<close>

text \<open>
  A binary floating-point format with \<open>p\<close> significant bits holds zero and the reals
  \<open>m * 2 ^ e\<close> with \<open>2 ^ (p - 1) \<le> |m| < 2 ^ p\<close>. Each IEEE operation returns the
  representable value nearest to the exact result, a tie going to the even significand.
  \<open>rne\<close> is that rounding on the integers, \<open>binade x\<close> the exponent of the power of
  two at or below \<open>|x|\<close>, and \<open>round_bits p\<close> the rounding to \<open>p\<close> significant bits.
  The exponent range is not bounded: the values met in this development lie far inside
  the normal range of both formats, where overflow, subnormals, infinities and NaN do
  not arise.
\<close>

definition rne :: "real \<Rightarrow> int" where
  "rne s =
     (let f = \<lfloor>s\<rfloor>; d = s - real_of_int f
      in if d < 1 / 2 then f else if 1 / 2 < d then f + 1 else if even f then f else f + 1)"

definition binade :: "real \<Rightarrow> int" where
  "binade x = \<lfloor>log 2 \<bar>x\<bar>\<rfloor>"

definition round_bits :: "nat \<Rightarrow> real \<Rightarrow> real" where
  "round_bits p x =
     (if x = 0 then 0
      else (let e = binade x - int p + 1
            in real_of_int (rne (x / 2 powi e)) * 2 powi e))"

text \<open>
  \<open>fl32\<close> rounds to numpy's \<open>float32\<close> (24 significant bits), \<open>fl64\<close> to a Python
  float (53 significant bits).
\<close>

definition fl32 :: "real \<Rightarrow> real" where
  "fl32 x = round_bits 24 x"

definition fl64 :: "real \<Rightarrow> real" where
  "fl64 x = round_bits 53 x"

section \<open>Overlay utility: \<open>check_aspect_ratio\<close> (overlay\_images.py)\<close>

text \<open>
  \<^verbatim>\<open>
  ratio1 = img1.width / img1.height
  ratio2 = img2.width / img2.height
  diff = abs(ratio1 - ratio2) / ratio1
  return diff <= tolerance
  \<close>
  The sizes are Python ints; \<open>/\<close> on two ints is the correctly rounded quotient, and
  on two floats the rounded quotient again. Both raise \<open>ZeroDivisionError\<close> on a zero
  divisor. The subtraction is rounded, \<open>abs\<close> and the comparison are exact.
  \<open>tolerance\<close> is a Python float: the default \<open>0.01\<close> is \<open>fl64 (1 / 100)\<close>.
\<close>

definition py_truediv :: "real \<Rightarrow> real \<Rightarrow> py_error + real" where
  "py_truediv a b = (if b = 0 then Inl ZeroDivisionError else Inr (fl64 (a / b)))"

definition check_aspect_ratio :: "'p image \<Rightarrow> 'q image \<Rightarrow> real \<Rightarrow> py_error + bool" where
  "check_aspect_ratio img1 img2 tolerance =
     (case py_truediv (real (width img1)) (real (height img1)) of
        Inl e \<Rightarrow> Inl e
      | Inr ratio1 \<Rightarrow>
          (case py_truediv (real (width img2)) (real (height img2)) of
             Inl e \<Rightarrow> Inl e
           | Inr ratio2 \<Rightarrow>
               (case py_truediv \<bar>fl64 (ratio1 - ratio2)\<bar> ratio1 of
                  Inl e \<Rightarrow> Inl e
                | Inr diff \<Rightarrow> Inr (diff \<le> tolerance))))"

definition blank :: "nat \<Rightarrow> nat \<Rightarrow> nat image" where
  "blank w h = \<lparr>width = w, height = h, px = (\<lambda>_. 0)\<rparr>"


section \<open>White-floor client: \<open>make_white_floor\<close> (make\_white\_floor.py)\<close>

subsection \<open>Strings\<close>

text \<open>
  \<open>str.lower()\<close> on ASCII text: \<open>A\<close> to \<open>Z\<close> gain 32 (bit 5 is set), every
  other byte stays. The substring tests below look for ASCII needles only.
\<close>

definition lower_char :: "char \<Rightarrow> char" where
  "lower_char c =
     (let n = (of_char c :: nat) in
      if 65 \<le> n \<and> n \<le> 90
      then Char (digit0 c) (digit1 c) (digit2 c) (digit3 c) (digit4 c) True (digit6 c) (digit7 c)
      else c)"

definition lower :: "string \<Rightarrow> string" where
  "lower s = map lower_char s"

fun startswith :: "string \<Rightarrow> string \<Rightarrow> bool" where
  "startswith s [] = True"
| "startswith [] (p # ps) = False"
| "startswith (c # cs) (p # ps) = (c = p \<and> startswith cs ps)"

text \<open>\<open>contains sub s\<close> is Python's \<open>sub in s\<close>.\<close>

fun contains :: "string \<Rightarrow> string \<Rightarrow> bool" where
  "contains sub [] = (sub = [])"
| "contains sub (c # cs) = (startswith (c # cs) sub \<or> contains sub cs)"

subsection \<open>The remote model and the world\<close>

type_synonym bytes = "nat list"

text \<open>
  What one \<open>generate_content\<close> call inside the \<open>try\<close> block does: it returns a
  response, or anything in the block raises an exception with message \<open>str(e)\<close>.
  A response is its list of candidates, a candidate the list of its content parts, a part
  its inline data if it has any.
\<close>

type_synonym part = "bytes option"
type_synonym response = "part list list"

datatype call_outcome = Returns response | Raises string

text \<open>The returned dict: \<open>{success: True, image_bytes}\<close> or \<open>{success: False, error}\<close>.\<close>

datatype wf_result = Success bytes | Failure string

text \<open>The observable effects: remote calls made so far and the \<open>time.sleep\<close> arguments, in order.\<close>

record world =
  calls :: nat
  sleeps :: "nat list"

definition world0 :: world where
  "world0 = \<lparr>calls = 0, sleeps = []\<rparr>"

text \<open>
  \<^verbatim>\<open>
  if response.candidates and response.candidates[0].content.parts:
      for part in response.candidates[0].content.parts:
          if part.inline_data and part.inline_data.data:
              return {"success": True, "image_bytes": part.inline_data.data}
  \<close>
  An empty \<open>bytes\<close> object is falsy, so a part with empty data is passed over.
\<close>

fun first_image_part :: "part list \<Rightarrow> bytes option" where
  "first_image_part [] = None"
| "first_image_part (None # ps) = first_image_part ps"
| "first_image_part (Some d # ps) = (if d \<noteq> [] then Some d else first_image_part ps)"

definition first_image :: "response \<Rightarrow> bytes option" where
  "first_image r = (case r of [] \<Rightarrow> None | parts # _ \<Rightarrow> first_image_part parts)"

definition is_timeout :: "string \<Rightarrow> bool" where
  "is_timeout error_msg =
     (contains ''timed out'' (lower error_msg) \<or> contains ''timeout'' (lower error_msg))"

text \<open>
  The retry loop \<open>for attempt in range(max_retries)\<close>, from \<open>attempt\<close> on. The remote
  service \<open>svc\<close> answers the \<open>n\<close>-th call (counted from 0) with \<open>svc n\<close>.
\<close>

function retry_loop :: "(nat \<Rightarrow> call_outcome) \<Rightarrow> int \<Rightarrow> nat \<Rightarrow> world \<Rightarrow> wf_result \<times> world" where
  "retry_loop svc max_retries attempt w =
     (if int attempt < max_retries then
        (let w1 = w\<lparr>calls := calls w + 1\<rparr> in
         case svc (calls w) of
           Returns response \<Rightarrow>
             (case first_image response of
                Some data \<Rightarrow> (Success data, w1)
              | None \<Rightarrow> (Failure ''No image data in response'', w1))
         | Raises error_msg \<Rightarrow>
             if is_timeout error_msg \<and> int attempt < max_retries - 1
             then retry_loop svc max_retries (attempt + 1)
                    (w1\<lparr>sleeps := sleeps w1 @ [2 ^ attempt]\<rparr>)
             else (Failure error_msg, w1))
      else (Failure ''Max retries exceeded'', w))"
  by pat_completeness auto
termination
  by (relation "measure (\<lambda>(svc, max_retries, attempt, w). nat (max_retries - int attempt))") auto

text \<open>
  \<open>get_client\<close> raises \<open>ValueError\<close> when the key is absent or empty; otherwise
  \<open>make_white_floor\<close> runs the loop from attempt 0.
\<close>

definition get_client :: "string option \<Rightarrow> py_error + string" where
  "get_client api_key =
     (case api_key of
        None \<Rightarrow> Inl (ValueError ''GOOGLE_API_KEY not found in .env file'')
      | Some k \<Rightarrow> if k = [] then Inl (ValueError ''GOOGLE_API_KEY not found in .env file'')
                  else Inr k)"

definition make_white_floor ::
  "string option \<Rightarrow> (nat \<Rightarrow> call_outcome) \<Rightarrow> int \<Rightarrow> world \<Rightarrow> py_error + (wf_result \<times> world)" where
  "make_white_floor api_key svc max_retries w =
     (case get_client api_key of
        Inl e \<Rightarrow> Inl e
      | Inr client \<Rightarrow> Inr (retry_loop svc max_retries 0 w))"

section \<open>Background-removal client: \<open>process_directory\<close> (remove\_background.py)\<close>

subsection \<open>File names\<close>





subsection \<open>The directory, the remote service and the batch loop\<close>

















section \<open>Scene compositor: visible edges and edge thickness (composite.py)\<close>

subsection \<open>Plane vectors\<close>

text \<open>
  The points are held in \<open>float32\<close> arrays: every component of a sum, a difference, a
  product with a scalar or a quotient by a scalar is rounded to 24 bits. A Python scalar
  that meets a \<open>float32\<close> array or scalar is converted to \<open>float32\<close> first (the
  promotion rule of numpy 2). \<open>np.dot\<close> on two 2-vectors rounds each product and then
  the sum; \<open>np.linalg.norm\<close> is the rounded square root of the dot product of the vector
  with itself.
\<close>

type_synonym vec2 = "real \<times> real"

definition vadd :: "vec2 \<Rightarrow> vec2 \<Rightarrow> vec2" where
  "vadd a b = (fl32 (fst a + fst b), fl32 (snd a + snd b))"

definition vsub :: "vec2 \<Rightarrow> vec2 \<Rightarrow> vec2" where
  "vsub a b = (fl32 (fst a - fst b), fl32 (snd a - snd b))"

definition smul :: "real \<Rightarrow> vec2 \<Rightarrow> vec2" where
  "smul t a = (fl32 (t * fst a), fl32 (t * snd a))"

definition vdiv :: "vec2 \<Rightarrow> real \<Rightarrow> vec2" where
  "vdiv a t = (fl32 (fst a / t), fl32 (snd a / t))"

definition dot :: "vec2 \<Rightarrow> vec2 \<Rightarrow> real" where
  "dot a b = fl32 (fl32 (fst a * fst b) + fl32 (snd a * snd b))"

definition linalg_norm :: "vec2 \<Rightarrow> real" where
  "linalg_norm a = fl32 (sqrt (dot a a))"

text \<open>\<open>np.array(points, dtype=np.float32)\<close> on a list of pairs of Python ints.\<close>

definition float32_array :: "(int \<times> int) list \<Rightarrow> vec2 list" where
  "float32_array points = map (\<lambda>p. (fl32 (real_of_int (fst p)), fl32 (real_of_int (snd p)))) points"

text \<open>
  \<open>np.mean(pts, axis=0)\<close>: the rows are added one after the other in \<open>float32\<close> and
  the sum is divided by the number of rows.
\<close>

definition mean_point :: "vec2 list \<Rightarrow> vec2" where
  "mean_point pts =
     (case pts of
        [] \<Rightarrow> (0, 0)
      | p # ps \<Rightarrow> vdiv (foldl vadd p ps) (fl32 (real (length pts))))"

subsection \<open>\<open>get_visible_edges\<close>\<close>

record edge =
  edge_name :: string
  edge_start :: vec2
  edge_end :: vec2
  outward :: vec2
  visibility :: real

text \<open>
  The loop body, for an edge of non-zero length:
  \<^verbatim>\<open>
  vec = end - start
  n1 = [vec[1], -vec[0]];  n2 = [-vec[1], vec[0]]
  mid = (start + end) / 2
  to_center = centroid - mid
  outward = n1 if np.dot(n1, to_center) < 0 else n2
  outward = outward / np.linalg.norm(outward)
  visibility = max(0.0, float(outward[1]))
  \<close>
  Negation and the conversion of a \<open>float32\<close> to a Python float are exact.
\<close>

definition outward_normal :: "vec2 \<Rightarrow> vec2 \<Rightarrow> vec2 \<Rightarrow> vec2" where
  "outward_normal centroid start end' =
     (let vec = vsub end' start;
          n1 = (snd vec, - fst vec);
          n2 = (- snd vec, fst vec);
          mid = vdiv (vadd start end') 2;
          to_center = vsub centroid mid;
          outward = (if dot n1 to_center < 0 then n1 else n2)
      in vdiv outward (linalg_norm outward))"

definition edge_visibility :: "vec2 \<Rightarrow> vec2 \<Rightarrow> vec2 \<Rightarrow> real" where
  "edge_visibility centroid start end' = max 0 (snd (outward_normal centroid start end'))"

text \<open>
  One iteration: \<open>None\<close> when the edge is skipped (\<open>length <= 0\<close>) or not appended
  (\<open>visibility > 0\<close> fails).
\<close>

definition visible_edge :: "vec2 \<Rightarrow> string \<times> vec2 \<times> vec2 \<Rightarrow> edge option" where
  "visible_edge centroid e =
     (case e of (name, start, end') \<Rightarrow>
        if linalg_norm (vsub end' start) \<le> 0 then None
        else if edge_visibility centroid start end' > 0
        then Some \<lparr>edge_name = name, edge_start = start, edge_end = end',
                   outward = outward_normal centroid start end',
                   visibility = edge_visibility centroid start end'\<rparr>
        else None)"

text \<open>
  The list \<open>edges\<close>. Indexing \<open>pts[3]\<close> raises \<open>IndexError\<close> when fewer than four
  points are given.
\<close>

definition quad_edges :: "vec2 list \<Rightarrow> (string \<times> vec2 \<times> vec2) list" where
  "quad_edges pts =
     [(''top'', pts ! 0, pts ! 1), (''right'', pts ! 1, pts ! 2),
      (''bottom'', pts ! 2, pts ! 3), (''left'', pts ! 3, pts ! 0)]"

definition get_visible_edges :: "(int \<times> int) list \<Rightarrow> py_error + edge list" where
  "get_visible_edges points =
     (if length points < 4 then Inl IndexError
      else
        (let pts = float32_array points;
             centroid = mean_point pts
         in Inr (List.map_filter (visible_edge centroid) (quad_edges pts))))"

subsection \<open>\<open>add_thickness_to_visible_edges\<close>: the sampled local thickness\<close>

text \<open>
  For each visible edge the function samples \<open>int(edge_len) + 1\<close> points and computes
  \<^verbatim>\<open>
  t = i / max(1, num_samples - 1)
  point = start + t * (end - start)
  depth_ratio = point[1] / img_bottom
  local_thickness = min_thickness + (max_thickness - min_thickness) * depth_ratio
  \<close>
  with \<open>min_thickness = 4\<close>, \<open>max_thickness = thickness\<close> and \<open>img_bottom\<close> the image
  height, all three Python ints. \<open>t\<close> is a Python float, the quotient of two ints; it is
  rounded to \<open>float32\<close> when it multiplies the array. The strip the function then
  rasterises with the imaging library is not modelled; the model returns each sample
  point with its local thickness.
\<close>

definition min_thickness :: int where
  "min_thickness = 4"

definition num_samples :: "edge \<Rightarrow> nat" where
  "num_samples e = nat \<lfloor>linalg_norm (vsub (edge_end e) (edge_start e))\<rfloor> + 1"

definition sample_point :: "edge \<Rightarrow> nat \<Rightarrow> vec2" where
  "sample_point e i =
     (let t = fl64 (real i / real (max 1 (num_samples e - 1)))
      in vadd (edge_start e) (smul (fl32 t) (vsub (edge_end e) (edge_start e))))"

definition depth_ratio :: "nat \<Rightarrow> vec2 \<Rightarrow> real" where
  "depth_ratio img_bottom point = fl32 (snd point / fl32 (real img_bottom))"

definition local_thickness :: "int \<Rightarrow> real \<Rightarrow> real" where
  "local_thickness thickness ratio =
     fl32 (fl32 (real_of_int min_thickness)
           + fl32 (fl32 (real_of_int (thickness - min_thickness)) * ratio))"

definition edge_samples :: "int \<Rightarrow> nat \<Rightarrow> edge \<Rightarrow> (vec2 \<times> real) list" where
  "edge_samples thickness h e =
     map (\<lambda>i. (sample_point e i, local_thickness thickness (depth_ratio h (sample_point e i))))
       [0..<num_samples e]"

definition thickness_samples :: "int \<Rightarrow> nat \<Rightarrow> (int \<times> int) list \<Rightarrow> py_error + (vec2 \<times> real) list" where
  "thickness_samples thickness h dst_points =
     (case get_visible_edges dst_points of
        Inl err \<Rightarrow> Inl err
      | Inr visible_edges \<Rightarrow> Inr (concat (map (edge_samples thickness h) visible_edges)))"


section \<open>Rug renderer: \<open>create_edge_mask\<close> (render.py)\<close>

text \<open>
  \<open>Image.new("L", size, color)\<close> refuses a negative size.
\<close>

definition Image_new :: "int \<times> int \<Rightarrow> nat \<Rightarrow> py_error + nat image" where
  "Image_new sz color =
     (if fst sz < 0 \<or> snd sz < 0 then Inl (ValueError ''Width and height must be >= 0'')
      else Inr (solid (nat (fst sz)) (nat (snd sz)) color))"

text \<open>
  The imaging library's \<open>ImageDraw.rounded_rectangle(xy, radius, fill)\<close> is outside the
  repository: the model takes it as a parameter that maps the image drawn on, the box,
  the radius and the fill value to the image after drawing. Likewise the image that
  \<open>Image.effect_noise(size, 255)\<close> returns is a parameter.
\<close>

type_synonym draw_rounded_rectangle =
  "nat image \<Rightarrow> int \<times> int \<times> int \<times> int \<Rightarrow> int \<Rightarrow> nat \<Rightarrow> nat image"

text \<open>Python's \<open>round\<close> on a float: to the nearest integer, ties to the even one.\<close>

definition py_round :: "real \<Rightarrow> int" where
  "py_round x =
     (let f = \<lfloor>x\<rfloor>; d = x - real_of_int f
      in if d < 1 / 2 then f else if 1 / 2 < d then f + 1 else if even f then f else f + 1)"

text \<open>
  The distance of pixel \<open>(x, y)\<close> to the mask boundary as the loop body computes it
  (\<open>w\<close> and \<open>h\<close> are the source's \<open>width\<close> and \<open>height\<close>):
  \<^verbatim>\<open>
  dist_x = min(x, width - 1 - x);  dist_y = min(y, height - 1 - y)
  dist = float(min(dist_x, dist_y))
  if corner_radius > 0:
      px = x + 0.5;  py = y + 0.5
      px_sym = px if px <= half_w else width - px
      py_sym = py if py <= half_h else height - py
      if px_sym <= corner_radius and py_sym <= corner_radius:
          dx = corner_radius - px_sym;  dy = corner_radius - py_sym
          radial = corner_radius - (dx * dx + dy * dy) ** 0.5
          if radial < dist:
              dist = max(radial, 0.0)
  \<close>
\<close>

definition edge_dist :: "int \<Rightarrow> int \<Rightarrow> int \<Rightarrow> nat \<times> nat \<Rightarrow> real" where
  "edge_dist w h corner_radius xy =
     (let x = int (fst xy); y = int (snd xy);
          half_w = real_of_int w / 2;
          half_h = real_of_int h / 2;
          dist_x = min x (w - 1 - x);
          dist_y = min y (h - 1 - y);
          dist = real_of_int (min dist_x dist_y)
      in if corner_radius > 0 then
           (let px = real_of_int x + 1 / 2;
                py = real_of_int y + 1 / 2;
                px_sym = (if px \<le> half_w then px else real_of_int w - px);
                py_sym = (if py \<le> half_h then py else real_of_int h - py)
            in if px_sym \<le> real_of_int corner_radius \<and> py_sym \<le> real_of_int corner_radius then
                 (let dx = real_of_int corner_radius - px_sym;
                      dy = real_of_int corner_radius - py_sym;
                      radial = real_of_int corner_radius - sqrt (dx * dx + dy * dy)
                  in if radial < dist then max radial 0 else dist)
               else dist)
         else dist)"

text \<open>
  One iteration of the inner loop on the pixel access object \<open>mask_px\<close>:
  \<^verbatim>\<open>
  if mask_px[x, y] == 0: continue
  ...
  if dist >= max_jitter or dist < 0: continue
  rnd = noise_px[x, y] / 255.0
  if rnd >= jitter_density: continue
  depth = max(1, int(round(max_jitter * (1.0 - rnd))))
  if dist < depth: mask_px[x, y] = 0
  \<close>
\<close>

definition jitter_pixel ::
  "int \<Rightarrow> int \<Rightarrow> int \<Rightarrow> int \<Rightarrow> real \<Rightarrow> (nat \<times> nat \<Rightarrow> nat) \<Rightarrow> nat \<times> nat
     \<Rightarrow> (nat \<times> nat \<Rightarrow> nat) \<Rightarrow> (nat \<times> nat \<Rightarrow> nat)" where
  "jitter_pixel w h corner_radius max_jitter jitter_density noise_px xy mask_px =
     (if mask_px xy = 0 then mask_px
      else
        (let dist = edge_dist w h corner_radius xy
         in if dist \<ge> real_of_int max_jitter \<or> dist < 0 then mask_px
            else
              (let rnd = real (noise_px xy) / 255
               in if rnd \<ge> jitter_density then mask_px
                  else
                    (let depth = max 1 (py_round (real_of_int max_jitter * (1 - rnd)))
                     in if dist < real_of_int depth then mask_px(xy := 0) else mask_px))))"

text \<open>\<open>for y in range(height): for x in range(width): ...\<close>\<close>

definition jitter_pass ::
  "int \<Rightarrow> int \<Rightarrow> int \<Rightarrow> int \<Rightarrow> real \<Rightarrow> (nat \<times> nat \<Rightarrow> nat)
     \<Rightarrow> (nat \<times> nat \<Rightarrow> nat) \<Rightarrow> (nat \<times> nat \<Rightarrow> nat)" where
  "jitter_pass w h corner_radius max_jitter jitter_density noise_px mask_px =
     fold (\<lambda>y m.
        fold (\<lambda>x. jitter_pixel w h corner_radius max_jitter jitter_density noise_px (x, y))
          [0..<nat w] m)
       [0..<nat h] mask_px"

definition create_edge_mask ::
  "draw_rounded_rectangle \<Rightarrow> nat image \<Rightarrow> int \<times> int \<Rightarrow> int \<Rightarrow> int \<Rightarrow> real
     \<Rightarrow> py_error + nat image" where
  "create_edge_mask rounded_rectangle noise sz radius0 jitter0 jitter_density0 =
     (let width = fst sz; height = snd sz;
          radius = max 0 (min radius0 (min width height div 2))
      in if radius = 0 then Image_new sz 255
         else
           (case Image_new sz 0 of
              Inl e \<Rightarrow> Inl e
            | Inr canvas \<Rightarrow>
                (let mask = rounded_rectangle canvas (0, 0, width - 1, height - 1) radius 255;
                     jitter = max 0 jitter0
                 in if jitter = 0 then Inr mask
                    else
                      (let jitter_density = max 0 (min 1 jitter_density0)
                       in if jitter_density = 0 then Inr mask
                          else
                            (let max_jitter = min jitter (min width height div 2)
                             in if max_jitter \<le> 0 then Inr mask
                                else
                                  (let corner_radius = max 0 (min radius (min width height div 2))
                                   in Inr (mask\<lparr>px := jitter_pass width height corner_radius
                                                  max_jitter jitter_density (px noise) (px mask)\<rparr>)))))))"

text \<open>
  A concrete drawing primitive for evaluating the definitions on examples: the filled box
  whose four corner pixels are left out when the radius is positive. It stands in for the
  library's rasteriser, which the theorems below take as an arbitrary parameter.
\<close>

definition notched_rectangle :: draw_rounded_rectangle where
  "notched_rectangle img xy radius fill =
     (case xy of (x0, y0, x1, y1) \<Rightarrow>
        img\<lparr>px := (\<lambda>p.
          let x = int (fst p); y = int (snd p)
          in if x0 \<le> x \<and> x \<le> x1 \<and> y0 \<le> y \<and> y \<le> y1
                \<and> \<not> (0 < radius \<and> (x = x0 \<or> x = x1) \<and> (y = y0 \<or> y = y1))
             then fill else px img p)\<rparr>)"

text \<open>
  Modelled from the spec: the body of the imaging library's
  \<open>ImageDraw.rounded_rectangle(xy, radius, fill)\<close> is missing from the repository,
  which only calls it. The spec names its result on the zero canvas "the clean
  rounded-rectangle mask": the box \<open>xy\<close> with its corners rounded by quarter circles of
  the given radius. The model fills the pixels of the box, except those pixels of a
  corner square of side \<open>radius\<close> that lie farther than \<open>radius\<close> from the centre of
  that corner's circle; \<open>dx\<close> and \<open>dy\<close> are the distances by which a pixel reaches
  into the corner squares.
\<close>

definition ImageDraw_rounded_rectangle :: draw_rounded_rectangle where
  "ImageDraw_rounded_rectangle img xy radius fill =
     (case xy of (x0, y0, x1, y1) \<Rightarrow>
        img\<lparr>px := (\<lambda>p.
          let x = int (fst p); y = int (snd p);
              dx = (if x < x0 + radius then x0 + radius - x
                    else if x1 - radius < x then x - (x1 - radius) else 0);
              dy = (if y < y0 + radius then y0 + radius - y
                    else if y1 - radius < y then y - (y1 - radius) else 0)
          in if x0 \<le> x \<and> x \<le> x1 \<and> y0 \<le> y \<and> y \<le> y1
                \<and> dx * dx + dy * dy \<le> radius * radius
             then fill else px img p)\<rparr>)"


section \<open>Scene compositor: \<open>composite_scene\<close> (composite.py)\<close>

subsection \<open>Parameters and their defaults\<close>

text \<open>
  The parameters of \<open>composite_scene\<close> after binding, and the keyword arguments a caller
  may leave out. The signature is
  \<^verbatim>\<open>
  def composite_scene(scene_name, design_path=None, output_path="output.png",
                      shadow_intensity=1.0, rug_thickness=6, debug=False,
                      skip_render=False, texture_strength=0.55)
  \<close>
\<close>

record composite_args =
  scene_name :: string
  design_path :: "string option"
  output_path :: string
  shadow_intensity :: real
  rug_thickness :: int
  debug :: bool
  skip_render :: bool
  texture_strength :: real

record composite_kwargs =
  kw_design_path :: "string option option"
  kw_output_path :: "string option"
  kw_shadow_intensity :: "real option"
  kw_rug_thickness :: "int option"
  kw_debug :: "bool option"
  kw_skip_render :: "bool option"
  kw_texture_strength :: "real option"

definition no_kwargs :: composite_kwargs where
  "no_kwargs = \<lparr>kw_design_path = None, kw_output_path = None, kw_shadow_intensity = None,
     kw_rug_thickness = None, kw_debug = None, kw_skip_render = None,
     kw_texture_strength = None\<rparr>"

definition or_default :: "'a option \<Rightarrow> 'a \<Rightarrow> 'a" where
  "or_default given dflt = (case given of None \<Rightarrow> dflt | Some v \<Rightarrow> v)"

definition bind_composite_scene :: "string \<Rightarrow> composite_kwargs \<Rightarrow> composite_args" where
  "bind_composite_scene scene kw =
     \<lparr>scene_name = scene,
      design_path = or_default (kw_design_path kw) None,
      output_path = or_default (kw_output_path kw) ''output.png'',
      shadow_intensity = or_default (kw_shadow_intensity kw) 1,
      rug_thickness = or_default (kw_rug_thickness kw) 6,
      debug = or_default (kw_debug kw) False,
      skip_render = or_default (kw_skip_render kw) False,
      texture_strength = or_default (kw_texture_strength kw) (55 / 100)\<rparr>"

text \<open>
  \<open>def add_thickness_to_visible_edges(rug_rgba, dst_points, thickness: int = 6)\<close>:
  the thickness the function works with when the caller gives one or none.
\<close>

definition bind_thickness :: "int option \<Rightarrow> int" where
  "bind_thickness given = or_default given 6"

text \<open>
  The command line (\<open>__main__\<close>): argparse fills its own defaults and every parameter of
  \<open>composite_scene\<close> is then passed explicitly.
  \<^verbatim>\<open>
  --output default "output.png"      --shadow-intensity default 1.0
  --thickness default 7              --texture-strength default 0.7
  --debug, --skip-render             store_true flags
  \<close>
\<close>

record cli_options =
  cli_design :: "string option"
  cli_output :: "string option"
  cli_shadow_intensity :: "real option"
  cli_thickness :: "int option"
  cli_debug :: bool
  cli_skip_render :: bool
  cli_texture_strength :: "real option"

definition no_options :: cli_options where
  "no_options = \<lparr>cli_design = None, cli_output = None, cli_shadow_intensity = None,
     cli_thickness = None, cli_debug = False, cli_skip_render = False,
     cli_texture_strength = None\<rparr>"

definition main_args :: "string \<Rightarrow> cli_options \<Rightarrow> composite_args" where
  "main_args scene opts =
     bind_composite_scene scene
       \<lparr>kw_design_path = Some (cli_design opts),
        kw_output_path = Some (or_default (cli_output opts) ''output.png''),
        kw_shadow_intensity = Some (or_default (cli_shadow_intensity opts) 1),
        kw_rug_thickness = Some (or_default (cli_thickness opts) 7),
        kw_debug = Some (cli_debug opts),
        kw_skip_render = Some (cli_skip_render opts),
        kw_texture_strength = Some (or_default (cli_texture_strength opts) (7 / 10))\<rparr>"

section \<open>Theorems\<close>

subsection \<open>Rounding\<close>

text \<open>
  Facts about \<open>round_bits\<close>: it is odd, monotone against every representable bound, exact on
  representable values, and its value on a given binade is the rounded scaled integer.
\<close>

lemma two_powi_le_iff: "(2::real) powi a \<le> 2 powi b \<longleftrightarrow> a \<le> b"
proof
  assume "(2::real) powi a \<le> 2 powi b"
  show "a \<le> b"
  proof (rule ccontr)
    assume "\<not> a \<le> b"
    then have "(2::real) powi b < 2 powi a"
      by (intro power_int_strict_increasing) simp_all
    with \<open>(2::real) powi a \<le> 2 powi b\<close> show False by simp
  qed
next
  assume "a \<le> b"
  then show "(2::real) powi a \<le> 2 powi b"
    by (intro power_int_increasing) simp_all
qed

lemma two_powi_less_iff: "(2::real) powi a < 2 powi b \<longleftrightarrow> a < b"
  using two_powi_le_iff [of b a] by (simp add: not_le [symmetric])

lemma binade_iff:
  assumes "x \<noteq> 0"
  shows "binade x = k \<longleftrightarrow> 2 powi k \<le> \<bar>x\<bar> \<and> \<bar>x\<bar> < 2 powi (k + 1)"
proof -
  have "(2::real) powr real_of_int j = 2 powi j" for j
    by (simp add: powr_real_of_int')
  from this [of k] this [of "k + 1"] show ?thesis
    unfolding binade_def using assms floor_log_eq_powr_iff [of "\<bar>x\<bar>" 2 k]
    by simp
qed

lemma binade_bounds:
  assumes "x \<noteq> 0"
  shows "2 powi binade x \<le> \<bar>x\<bar>" "\<bar>x\<bar> < 2 powi (binade x + 1)"
  using binade_iff [OF assms, of "binade x"] by simp_all

lemma binade_minus [simp]: "binade (- x) = binade x"
  by (simp add: binade_def)

lemma rne_of_int [simp]: "rne (real_of_int m) = m"
  by (simp add: rne_def)

lemma rne_floor_ceiling: "\<lfloor>s\<rfloor> \<le> rne s" "rne s \<le> \<lceil>s\<rceil>"
proof -
  show "\<lfloor>s\<rfloor> \<le> rne s"
    by (simp add: rne_def Let_def)
  have "s \<noteq> real_of_int \<lfloor>s\<rfloor> \<Longrightarrow> \<lceil>s\<rceil> = \<lfloor>s\<rfloor> + 1"
    by (metis ceiling_altdef of_int_floor_cancel)
  moreover have "s = real_of_int \<lfloor>s\<rfloor> \<Longrightarrow> rne s = \<lfloor>s\<rfloor>"
    by (metis rne_of_int)
  ultimately show "rne s \<le> \<lceil>s\<rceil>"
    by (cases "s = real_of_int \<lfloor>s\<rfloor>") (auto simp: rne_def Let_def)
qed

lemma rne_ge:
  assumes "real_of_int m \<le> s"
  shows "m \<le> rne s"
proof -
  have "m \<le> \<lfloor>s\<rfloor>" using assms by (simp add: le_floor_iff)
  then show ?thesis using rne_floor_ceiling(1) [of s] by linarith
qed

lemma rne_le:
  assumes "s \<le> real_of_int m"
  shows "rne s \<le> m"
proof -
  have "\<lceil>s\<rceil> \<le> m" using assms by (simp add: ceiling_le_iff)
  then show ?thesis using rne_floor_ceiling(2) [of s] by linarith
qed

lemma rne_err: "\<bar>real_of_int (rne s) - s\<bar> \<le> 1 / 2"
proof -
  have "real_of_int \<lfloor>s\<rfloor> \<le> s" "s < real_of_int \<lfloor>s\<rfloor> + 1"
    by linarith+
  then show ?thesis
    by (auto simp: rne_def Let_def abs_le_iff)
qed

lemma rne_near:
  assumes "\<bar>s - real_of_int m\<bar> < 1 / 2"
  shows "rne s = m"
proof -
  have "\<bar>real_of_int (rne s) - real_of_int m\<bar> < 1"
    using rne_err [of s] assms by linarith
  then have "\<bar>rne s - m\<bar> < 1"
    by (metis of_int_abs of_int_diff of_int_less_1_iff)
  then show ?thesis by simp
qed

lemma rne_minus: "rne (- s) = - rne s"
proof (cases "s = real_of_int \<lfloor>s\<rfloor>")
  case True
  then obtain m where "s = real_of_int m" by blast
  then show ?thesis
    by (metis of_int_minus rne_of_int)
next
  case False
  then have f: "real_of_int \<lfloor>s\<rfloor> < s" "s < real_of_int \<lfloor>s\<rfloor> + 1"
    by linarith+
  have c: "\<lfloor>- s\<rfloor> = - \<lfloor>s\<rfloor> - 1"
    by (rule floor_unique) (use f in \<open>simp_all, linarith+\<close>)
  show ?thesis
    unfolding rne_def Let_def c using f by auto
qed

lemma round_bits_0 [simp]: "round_bits p 0 = 0"
  by (simp add: round_bits_def)

lemma round_bits_minus: "round_bits p (- x) = - round_bits p x"
  by (simp add: round_bits_def Let_def rne_minus)

lemma round_bits_eval:
  assumes "x \<noteq> 0" "2 powi k \<le> \<bar>x\<bar>" "\<bar>x\<bar> < 2 powi (k + 1)"
  shows "round_bits p x = real_of_int (rne (x / 2 powi (k - int p + 1))) * 2 powi (k - int p + 1)"
  using assms binade_iff [OF assms(1), of k] by (simp add: round_bits_def Let_def)


lemma round_bits_scaled_bound:
  fixes p :: nat
  assumes "x \<noteq> 0" "e = binade x - int p + 1"
  shows "2 powi (int p - 1) \<le> \<bar>x / 2 powi e\<bar>" "\<bar>x / 2 powi e\<bar> < 2 powi int p"
proof -
  note e_def = assms(2)
  have pos: "(0::real) < 2 powi e" by simp
  have "2 powi (int p - 1) * 2 powi e = (2::real) powi binade x"
    unfolding e_def by (simp flip: power_int_add)
  then have "2 powi (int p - 1) * 2 powi e \<le> \<bar>x\<bar>"
    using binade_bounds(1) [OF assms(1)] by simp
  then show "2 powi (int p - 1) \<le> \<bar>x / 2 powi e\<bar>"
    using pos by (simp add: abs_divide pos_le_divide_eq del: power_int_of_nat)
  have "(2::real) powi (binade x + 1) = 2 powi (int p + e)"
    by (simp add: e_def)
  also have "\<dots> = 2 powi int p * 2 powi e"
    by (rule power_int_add) simp
  finally have "2 powi int p * 2 powi e = (2::real) powi (binade x + 1)"
    by (rule sym)
  then have "\<bar>x\<bar> < 2 powi int p * 2 powi e"
    using binade_bounds(2) [OF assms(1)] by simp
  then show "\<bar>x / 2 powi e\<bar> < 2 powi int p"
    using pos by (simp add: abs_divide pos_divide_less_eq del: power_int_of_nat)
qed

lemma round_bits_as_int:
  assumes "x \<noteq> 0"
  shows "\<exists>m. round_bits p x = real_of_int m * 2 powi (binade x - int p + 1) \<and> \<bar>m\<bar> \<le> 2 ^ p
           \<and> m = rne (x / 2 powi (binade x - int p + 1))"
proof -
  define e where "e = binade x - int p + 1"
  define s where "s = x / 2 powi e"
  have b: "\<bar>s\<bar> < 2 powi int p"
    unfolding s_def by (rule round_bits_scaled_bound(2) [OF assms e_def])
  have "s \<le> real_of_int (2 ^ p)" "real_of_int (- (2 ^ p)) \<le> s"
    using b by (simp_all add: abs_less_iff)
  then have "rne s \<le> 2 ^ p" "- (2 ^ p) \<le> rne s"
    by (simp_all add: rne_le rne_ge)
  then have "\<bar>rne s\<bar> \<le> 2 ^ p" by simp
  moreover have "round_bits p x = real_of_int (rne s) * 2 powi e"
    using assms by (simp add: round_bits_def Let_def s_def e_def)
  ultimately show ?thesis
    unfolding s_def e_def by blast
qed

lemma round_bits_exact:
  assumes "\<bar>n\<bar> \<le> 2 ^ p" "0 < p"
  shows "round_bits p (real_of_int n * 2 powi j) = real_of_int n * 2 powi j"
proof (cases "n = 0")
  case True
  then show ?thesis by simp
next
  case False
  define x where "x = real_of_int n * 2 powi j"
  have x0: "x \<noteq> 0" using False by (simp add: x_def)
  define e where "e = binade x - int p + 1"
  have ax: "\<bar>x\<bar> = real_of_int \<bar>n\<bar> * 2 powi j"
    by (simp add: x_def abs_mult)
  have "real_of_int \<bar>n\<bar> \<le> real_of_int (2 ^ p)"
    using assms(1) by (simp only: of_int_le_iff)
  then have n1: "real_of_int \<bar>n\<bar> \<le> 2 ^ p"
    by simp
  have "2 powi binade x \<le> real_of_int \<bar>n\<bar> * 2 powi j"
    using binade_bounds(1) [OF x0] ax by simp
  also have "\<dots> \<le> 2 ^ p * 2 powi j"
    using n1 by (intro mult_right_mono) simp_all
  also have "\<dots> = 2 powi (int p + j)"
    by (simp add: power_int_add)
  finally have k: "binade x \<le> int p + j"
    by (simp add: two_powi_le_iff)
  have "\<exists>m. x / 2 powi e = real_of_int m"
  proof (cases "e \<le> j")
    case True
    have "x / 2 powi e = real_of_int n * 2 powi (j - e)"
      by (simp add: x_def power_int_diff)
    also have "\<dots> = real_of_int (n * 2 ^ nat (j - e))"
      using True by (simp add: power_int_nonneg_exp)
    finally show ?thesis by blast
  next
    case False
    with k have kk: "binade x = int p + j"
      by (simp add: e_def)
    then have "2 powi (int p + j) \<le> real_of_int \<bar>n\<bar> * 2 powi j"
      using binade_bounds(1) [OF x0] ax by simp
    then have "2 ^ p * 2 powi j \<le> real_of_int \<bar>n\<bar> * 2 powi j"
      by (simp add: power_int_add)
    then have "2 ^ p \<le> real_of_int \<bar>n\<bar>"
      by (simp add: mult_le_cancel_right)
    with n1 have "real_of_int \<bar>n\<bar> = 2 ^ p" by simp
    then have "\<bar>n\<bar> = 2 ^ p"
      by (metis of_int_eq_numeral_power_cancel_iff)
    then have nn: "n = 2 ^ p \<or> n = - (2 ^ p)"
      by (auto simp: abs_if split: if_splits)
    have e: "e = j + 1" by (simp add: e_def kk)
    obtain q where q: "p = Suc q" using assms(2) by (cases p) auto
    from nn have "n = 2 * 2 ^ q \<or> n = 2 * (- (2 ^ q))"
      by (simp add: q)
    then obtain m where m: "n = 2 * m" by blast
    have "x / 2 powi e = real_of_int n / 2"
      by (simp add: x_def e power_int_add)
    also have "\<dots> = real_of_int m"
      by (simp add: m)
    finally show ?thesis by blast
  qed
  then obtain m where m: "x / 2 powi e = real_of_int m" by blast
  have "round_bits p x = real_of_int (rne (x / 2 powi e)) * 2 powi e"
    using x0 by (simp add: round_bits_def Let_def e_def)
  also have "\<dots> = (x / 2 powi e) * 2 powi e"
    by (simp add: m)
  also have "\<dots> = x" by simp
  finally show ?thesis by (simp add: x_def)
qed

lemma round_bits_of_int: "\<bar>n\<bar> \<le> 2 ^ p \<Longrightarrow> 0 < p \<Longrightarrow> round_bits p (real_of_int n) = real_of_int n"
  using round_bits_exact [of n p 0] by simp

lemma round_bits_dyadic:
  "\<bar>n\<bar> \<le> 2 ^ p \<Longrightarrow> 0 < p \<Longrightarrow> round_bits p (real_of_int n / 2 ^ j) = real_of_int n / 2 ^ j"
  using round_bits_exact [of n p "- int j"] by (simp add: power_int_minus field_simps)

lemma round_bits_idem: "0 < p \<Longrightarrow> round_bits p (round_bits p x) = round_bits p x"
proof (cases "x = 0")
  case True
  then show ?thesis by simp
next
  case False
  assume "0 < p"
  from round_bits_as_int [OF False, of p] obtain m where
    "round_bits p x = real_of_int m * 2 powi (binade x - int p + 1)" "\<bar>m\<bar> \<le> 2 ^ p"
    by blast
  then show ?thesis
    using round_bits_exact [of m p "binade x - int p + 1"] \<open>0 < p\<close> by simp
qed


lemma round_bits_le:
  assumes "\<bar>n\<bar> \<le> 2 ^ p" "0 < p" "x \<le> real_of_int n * 2 powi j"
  shows "round_bits p x \<le> real_of_int n * 2 powi j"
proof (cases "x = 0")
  case True
  with assms(3) show ?thesis by simp
next
  case False
  define b where "b = real_of_int n * 2 powi j"
  define k where "k = binade x"
  define e where "e = k - int p + 1"
  define s where "s = x / 2 powi e"
  have r: "round_bits p x = real_of_int (rne s) * 2 powi e"
    using False by (simp add: round_bits_def Let_def s_def e_def k_def)
  have pos: "(0::real) < 2 powi e" by simp
  have xs: "x = s * 2 powi e" by (simp add: s_def)
  show ?thesis
  proof (cases "e \<le> j")
    case True
    have "b = real_of_int n * (2 powi (j - e) * 2 powi e)"
      unfolding b_def by (subst power_int_add [symmetric]) simp_all
    also have "2 powi (j - e) = real_of_int (2 ^ nat (j - e))"
      using True by (simp add: power_int_nonneg_exp)
    finally have b: "b = real_of_int (n * 2 ^ nat (j - e)) * 2 powi e"
      by simp
    have "x \<le> b"
      using assms(3) by (simp only: b_def)
    then have "s * 2 powi e \<le> real_of_int (n * 2 ^ nat (j - e)) * 2 powi e"
      by (simp only: xs [symmetric] b [symmetric])
    then have "s \<le> real_of_int (n * 2 ^ nat (j - e))"
      using pos by (simp only: mult_le_cancel_right_pos)
    then have "rne s \<le> n * 2 ^ nat (j - e)"
      by (rule rne_le)
    then have "real_of_int (rne s) \<le> real_of_int (n * 2 ^ nat (j - e))"
      by (simp only: of_int_le_iff)
    then have "real_of_int (rne s) * 2 powi e \<le> real_of_int (n * 2 ^ nat (j - e)) * 2 powi e"
      using pos by (simp only: mult_le_cancel_right_pos)
    then have "round_bits p x \<le> b"
      by (simp only: r b)
    then show ?thesis
      by (simp only: b_def)
  next
    case False
    then have je: "j + 1 \<le> e" by simp
    have "real_of_int \<bar>n\<bar> \<le> real_of_int (2 ^ p)"
      using assms(1) by (simp only: of_int_le_iff)
    then have "\<bar>b\<bar> \<le> 2 ^ p * 2 powi j"
      unfolding b_def by (simp add: abs_mult mult_right_mono)
    also have "\<dots> = 2 powi (int p + j)"
      by (simp add: power_int_add)
    also have "\<dots> \<le> 2 powi k"
      using je by (simp add: two_powi_le_iff e_def)
    finally have bk: "\<bar>b\<bar> \<le> 2 powi k" .
    have kx: "2 powi k \<le> \<bar>x\<bar>"
      unfolding k_def by (rule binade_bounds(1) [OF \<open>x \<noteq> 0\<close>])
    have ke: "(2::real) powi k = real_of_int (2 ^ (p - 1)) * 2 powi e"
    proof -
      have "(2::real) powi k = 2 powi (int (p - 1) + e)"
        using assms(2) by (simp add: e_def of_nat_diff)
      also have "\<dots> = 2 powi int (p - 1) * 2 powi e"
        by (rule power_int_add) simp
      finally show ?thesis by simp
    qed
    show ?thesis
    proof (cases "0 < x")
      case True
      with kx bk assms(3) have "x = 2 powi k" "b = 2 powi k"
        by (simp_all add: b_def abs_le_iff)
      then have "s * 2 powi e = real_of_int (2 ^ (p - 1)) * 2 powi e"
        using xs ke by simp
      then have "s = real_of_int (2 ^ (p - 1))"
        using pos by (simp only: mult_cancel_right) simp
      then have "rne s = 2 ^ (p - 1)"
        by (simp only: rne_of_int)
      then have "round_bits p x = 2 powi k"
        using r ke by simp
      with \<open>b = 2 powi k\<close> show ?thesis
        by (simp add: b_def)
    next
      case False
      with \<open>x \<noteq> 0\<close> have "x < 0" by simp
      with kx have "x \<le> - (2 powi k)" by simp
      then have "s * 2 powi e \<le> real_of_int (- (2 ^ (p - 1))) * 2 powi e"
        using xs ke by simp
      then have "s \<le> real_of_int (- (2 ^ (p - 1)))"
        using pos by (simp only: mult_le_cancel_right_pos)
      then have "rne s \<le> - (2 ^ (p - 1))"
        by (rule rne_le)
      then have "real_of_int (rne s) \<le> real_of_int (- (2 ^ (p - 1)))"
        by (simp only: of_int_le_iff)
      then have "real_of_int (rne s) * 2 powi e \<le> real_of_int (- (2 ^ (p - 1))) * 2 powi e"
        using pos by (simp only: mult_le_cancel_right_pos)
      then have "round_bits p x \<le> - (2 powi k)"
        using r ke by simp
      also have "\<dots> \<le> b"
        using bk by (simp add: abs_le_iff)
      finally show ?thesis
        by (simp add: b_def)
    qed
  qed
qed

lemma round_bits_ge:
  assumes "\<bar>n\<bar> \<le> 2 ^ p" "0 < p" "real_of_int n * 2 powi j \<le> x"
  shows "real_of_int n * 2 powi j \<le> round_bits p x"
proof -
  have "round_bits p (- x) \<le> real_of_int (- n) * 2 powi j"
    using assms by (intro round_bits_le) simp_all
  then show ?thesis
    by (simp add: round_bits_minus)
qed

lemma round_bits_nonneg: "0 < p \<Longrightarrow> 0 \<le> x \<Longrightarrow> 0 \<le> round_bits p x"
  using round_bits_ge [of 0 p 0 x] by simp

lemma round_bits_nonpos: "0 < p \<Longrightarrow> x \<le> 0 \<Longrightarrow> round_bits p x \<le> 0"
  using round_bits_le [of 0 p x 0] by simp

lemma round_bits_pos:
  assumes "0 < p" "0 < x"
  shows "0 < round_bits p x"
proof -
  have "real_of_int 1 * 2 powi binade x \<le> x"
    using binade_bounds(1) [of x] assms(2) by simp
  then have "real_of_int 1 * 2 powi binade x \<le> round_bits p x"
    using assms(1) by (intro round_bits_ge) simp_all
  moreover have "(0::real) < real_of_int 1 * 2 powi binade x"
    by simp
  ultimately show ?thesis by linarith
qed

lemma round_bits_neg: "0 < p \<Longrightarrow> x < 0 \<Longrightarrow> round_bits p x < 0"
  using round_bits_pos [of p "- x"] by (simp add: round_bits_minus)

lemma round_bits_le_int: "\<bar>n\<bar> \<le> 2 ^ p \<Longrightarrow> 0 < p \<Longrightarrow> x \<le> real_of_int n \<Longrightarrow> round_bits p x \<le> real_of_int n"
  using round_bits_le [of n p x 0] by simp

lemma round_bits_ge_int: "\<bar>n\<bar> \<le> 2 ^ p \<Longrightarrow> 0 < p \<Longrightarrow> real_of_int n \<le> x \<Longrightarrow> real_of_int n \<le> round_bits p x"
  using round_bits_ge [of n p 0 x] by simp

lemma round_bits_err:
  assumes "x \<noteq> 0"
  shows "\<bar>round_bits p x - x\<bar> \<le> 2 powi (binade x - int p)"
proof -
  define e where "e = binade x - int p + 1"
  define s where "s = x / 2 powi e"
  have "round_bits p x - x = (real_of_int (rne s) - s) * 2 powi e"
    using assms by (simp add: round_bits_def Let_def s_def e_def algebra_simps)
  then have "\<bar>round_bits p x - x\<bar> = \<bar>real_of_int (rne s) - s\<bar> * 2 powi e"
    by (simp add: abs_mult)
  also have "\<dots> \<le> (1 / 2) * 2 powi e"
    by (intro mult_right_mono rne_err) simp
  also have "\<dots> = 2 powi (e - 1)"
    by (simp add: power_int_diff)
  finally show ?thesis
    by (simp add: e_def)
qed


lemma round_bits_eval_small:
  assumes "0 < p" "2 ^ (p - 1) \<le> \<bar>x\<bar> * 2 ^ j" "\<bar>x\<bar> * 2 ^ j < 2 ^ p"
  shows "round_bits p x = real_of_int (rne (x * 2 ^ j)) / 2 ^ j"
proof -
  define k where "k = int p - 1 - int j"
  have pj: "(2::real) powi (- int j) = 1 / 2 ^ j"
    by (simp add: power_int_minus divide_inverse)
  have x0: "x \<noteq> 0"
  proof
    assume "x = 0"
    with assms(2) have "(2::real) ^ (p - 1) \<le> 0" by simp
    moreover have "(0::real) < 2 ^ (p - 1)" by (rule zero_less_power) simp
    ultimately show False by linarith
  qed
  have "(2::real) powi k = 2 powi (int (p - 1)) * 2 powi (- int j)"
    unfolding k_def using assms(1) by (subst power_int_add [symmetric]) (simp_all add: of_nat_diff)
  then have lo: "2 powi k \<le> \<bar>x\<bar>"
    using assms(2) by (simp add: pj pos_divide_le_eq)
  have "(2::real) powi (k + 1) = 2 powi (int p) * 2 powi (- int j)"
    unfolding k_def by (subst power_int_add [symmetric]) simp_all
  then have hi: "\<bar>x\<bar> < 2 powi (k + 1)"
    using assms(3) by (simp add: pj pos_less_divide_eq)
  have "k - int p + 1 = - int j" by (simp add: k_def)
  with round_bits_eval [OF x0 lo hi, of p] show ?thesis
    by (simp add: pj)
qed

lemma round_bits_eval_large:
  assumes "0 < p" "2 ^ (p - 1) * 2 ^ j \<le> \<bar>x\<bar>" "\<bar>x\<bar> < 2 ^ p * 2 ^ j"
  shows "round_bits p x = real_of_int (rne (x / 2 ^ j)) * 2 ^ j"
proof -
  define k where "k = int p - 1 + int j"
  have x0: "x \<noteq> 0"
  proof
    assume "x = 0"
    with assms(2) have "(2::real) ^ (p - 1) * 2 ^ j \<le> 0" by simp
    moreover have "(0::real) < 2 ^ (p - 1) * 2 ^ j"
      by (intro mult_pos_pos zero_less_power) simp_all
    ultimately show False by linarith
  qed
  have "(2::real) powi k = 2 powi (int (p - 1)) * 2 powi (int j)"
    unfolding k_def using assms(1) by (subst power_int_add [symmetric]) (simp_all add: of_nat_diff)
  then have lo: "2 powi k \<le> \<bar>x\<bar>"
    using assms(2) by simp
  have "(2::real) powi (k + 1) = 2 powi (int p) * 2 powi (int j)"
    unfolding k_def by (subst power_int_add [symmetric]) simp_all
  then have hi: "\<bar>x\<bar> < 2 powi (k + 1)"
    using assms(3) by simp
  have "k - int p + 1 = int j" by (simp add: k_def)
  with round_bits_eval [OF x0 lo hi, of p] show ?thesis
    by simp
qed

lemma round_bits_sqrt_square:
  assumes p: "0 < p" and a: "0 < a" "a < 2 ^ p"
  shows "round_bits p (sqrt (round_bits p ((real_of_int a)\<^sup>2))) = real_of_int a"
proof -
  define A where "A = real_of_int a"
  define e where "e = binade A - int p + 1"
  define E where "E = (2::real) powi e"
  define P where "P = (2::real) ^ p"
  obtain q where q: "p = Suc q" using p by (cases p) auto
  have Ph: "real_of_int (2 ^ (p - 1)) = P / 2" "(2::real) ^ (p - 1) = P / 2"
    by (simp_all add: P_def q)
  have A0: "0 < A" "A \<noteq> 0" using a(1) by (simp_all add: A_def)
  have E0: "0 < E" by (simp add: E_def)
  have P0: "0 < P" by (simp add: P_def)
  have rA: "round_bits p A = A"
    unfolding A_def using a p by (intro round_bits_of_int) simp_all
  from round_bits_as_int [OF A0(2), of p] obtain M where
    M: "round_bits p A = real_of_int M * E" "M = rne (A / E)"
    unfolding e_def E_def by blast
  have AM: "A = real_of_int M * E" using M(1) rA by simp
  have sb: "2 powi (int p - 1) \<le> \<bar>A / E\<bar>" "\<bar>A / E\<bar> < 2 powi int p"
    unfolding E_def by (rule round_bits_scaled_bound [OF A0(2) e_def])+
  have AE: "A / E = real_of_int M" using AM E0 by simp
  have half: "(2::real) powi (int p - 1) = P / 2"
    using p by (simp add: P_def power_int_diff)
  have Mpos: "0 < real_of_int M"
    using AM A0 E0 by (simp add: zero_less_mult_iff)
  have Mlo: "P / 2 \<le> real_of_int M" and Mhi: "real_of_int M < P"
    using sb Mpos unfolding AE half by (simp_all add: P_def)
  have "M < 2 ^ p"
    using Mhi unfolding P_def by (simp add: of_int_less_numeral_power_cancel_iff)
  then have "M \<le> 2 ^ p - 1" by simp
  then have "real_of_int M \<le> real_of_int (2 ^ p - 1)"
    by (simp only: of_int_le_iff)
  then have Mhi': "real_of_int M \<le> P - 1"
    by (simp add: P_def)
  define y where "y = round_bits p (A\<^sup>2)"
  have A2: "A\<^sup>2 \<noteq> 0" "0 < A\<^sup>2" using A0 by simp_all
  have "\<bar>y - A\<^sup>2\<bar> \<le> 2 powi (binade (A\<^sup>2) - int p)"
    unfolding y_def by (rule round_bits_err [OF A2(1)])
  also have "\<dots> = 2 powi binade (A\<^sup>2) / P"
    by (simp add: P_def power_int_diff)
  also have "\<dots> \<le> A\<^sup>2 / P"
    using binade_bounds(1) [OF A2(1)] P0 by (simp add: divide_right_mono)
  finally have err: "\<bar>y - A\<^sup>2\<bar> \<le> A\<^sup>2 / P" .
  show ?thesis
  proof (cases "real_of_int M = P / 2")
    case True
    have "A = 2 powi (int q + e)"
      unfolding AM True P_def E_def q by (simp add: power_int_add)
    then have "A\<^sup>2 = real_of_int 1 * 2 powi (2 * (int q + e))"
      by (simp add: power2_eq_square power_int_add [symmetric])
    also have "round_bits p \<dots> = real_of_int 1 * 2 powi (2 * (int q + e))"
      using p by (intro round_bits_exact) simp_all
    finally have "y = A\<^sup>2"
      unfolding y_def using \<open>A\<^sup>2 = real_of_int 1 * 2 powi (2 * (int q + e))\<close> by simp
    then have "sqrt y = A" using A0 by simp
    then show ?thesis
      using rA by (simp add: y_def A_def)
  next
    case False
    have "M \<noteq> 2 ^ (p - 1)"
    proof
      assume "M = 2 ^ (p - 1)"
      then have "real_of_int M = real_of_int (2 ^ (p - 1))" by simp
      also have "\<dots> = P / 2"
        by (rule Ph(1))
      finally show False using False by simp
    qed
    moreover have "2 ^ (p - 1) \<le> M"
    proof -
      from Mlo have "real_of_int (2 ^ (p - 1)) \<le> real_of_int M"
        by (simp only: Ph(1))
      then show ?thesis by (simp only: of_int_le_iff)
    qed
    ultimately have "2 ^ (p - 1) + 1 \<le> M" by simp
    then have "real_of_int (2 ^ (p - 1) + 1) \<le> real_of_int M"
      by (simp only: of_int_le_iff)
    moreover have "real_of_int (2 ^ (p - 1) + 1) = real_of_int (2 ^ (p - 1)) + 1"
      by simp
    ultimately have Mlo': "P / 2 + 1 \<le> real_of_int M"
      by (simp only: Ph(1))
    define Mr where "Mr = real_of_int M"
    define h where "h = E / 2"
    have h0: "0 < h" using E0 by (simp add: h_def)
    have Mr: "P / 2 + 1 \<le> Mr" "Mr \<le> P - 1" "A = Mr * E" "0 < Mr"
      using Mlo' Mhi' AM P0 by (simp_all add: Mr_def)
    have up: "A\<^sup>2 / P < A * E + E\<^sup>2 / 4"
    proof -
      have "Mr / P < 1" using Mr(2) P0 by simp
      then have "A * E * (Mr / P) < A * E * 1"
        using A0 E0 by (intro mult_strict_left_mono) simp_all
      moreover have "A\<^sup>2 / P = A * E * (Mr / P)"
        by (simp add: Mr(3) power2_eq_square)
      moreover have "0 < E\<^sup>2 / 4" using E0 by simp
      ultimately show ?thesis by linarith
    qed
    have lo: "A\<^sup>2 / P < A * E - E\<^sup>2 / 4"
    proof -
      have "Mr * Mr \<le> Mr * (P - 1)"
        using Mr(2,4) by (intro mult_left_mono) simp_all
      then have "Mr * Mr / P \<le> Mr * (P - 1) / P"
        using P0 by (simp add: divide_right_mono)
      also have "\<dots> = Mr - Mr / P"
        using P0 by (simp add: field_simps)
      finally have 1: "Mr * Mr / P \<le> Mr - Mr / P" .
      have "1 / 2 < Mr / P"
        using Mr(1) P0 by (simp add: field_simps)
      with 1 have "Mr * Mr / P < Mr - 1 / 4" by linarith
      then have 2: "(Mr * Mr / P) * E\<^sup>2 < (Mr - 1 / 4) * E\<^sup>2"
        using E0 by (intro mult_strict_right_mono) simp_all
      have "A\<^sup>2 / P = (Mr * Mr / P) * E\<^sup>2"
        by (simp add: Mr(3) power2_eq_square)
      also note 2
      also have "(Mr - 1 / 4) * E\<^sup>2 = A * E - E\<^sup>2 / 4"
        by (simp add: Mr(3) power2_eq_square algebra_simps)
      finally show ?thesis .
    qed
    have y_hi: "y < (A + h)\<^sup>2"
    proof -
      have "y \<le> A\<^sup>2 + A\<^sup>2 / P" using err by (simp add: abs_le_iff)
      also have "\<dots> < A\<^sup>2 + (A * E + E\<^sup>2 / 4)" using up by simp
      also have "\<dots> = (A + h)\<^sup>2"
        by (simp add: h_def power2_eq_square algebra_simps)
      finally show ?thesis .
    qed
    have y_lo: "(A - h)\<^sup>2 < y"
    proof -
      have "(A - h)\<^sup>2 = A\<^sup>2 - (A * E - E\<^sup>2 / 4)"
        by (simp add: h_def power2_eq_square algebra_simps)
      also have "\<dots> < A\<^sup>2 - A\<^sup>2 / P" using lo by simp
      also have "\<dots> \<le> y" using err by (simp add: abs_le_iff)
      finally show ?thesis .
    qed
    have Ah: "A - h = (Mr - 1 / 2) * E" "A + h = (Mr + 1 / 2) * E"
      by (simp_all add: Mr(3) h_def algebra_simps)
    have Ahpos: "0 < A - h"
      unfolding Ah using Mr(1) P0 E0 by (intro mult_pos_pos) simp_all
    define r where "r = sqrt y"
    have r_lo: "A - h < r"
      unfolding r_def by (rule real_less_rsqrt [OF y_lo])
    have r_hi: "r < A + h"
      unfolding r_def using y_hi A0 h0 by (intro real_less_lsqrt) simp_all
    have r0: "r \<noteq> 0" "0 < r" using r_lo Ahpos by simp_all
    have kE: "(2::real) powi binade A = (P / 2) * E"
    proof -
      have "(2::real) powi binade A = 2 powi ((int p - 1) + e)"
        by (simp add: e_def)
      also have "\<dots> = 2 powi (int p - 1) * 2 powi e"
        by (rule power_int_add) simp
      finally show ?thesis by (simp add: half E_def)
    qed
    have kE': "(2::real) powi (binade A + 1) = P * E"
    proof -
      have "(2::real) powi (binade A + 1) = 2 powi (int p + e)"
        by (simp add: e_def)
      also have "\<dots> = 2 powi int p * 2 powi e"
        by (rule power_int_add) simp
      finally show ?thesis by (simp add: P_def E_def)
    qed
    have "(P / 2) * E \<le> (Mr - 1 / 2) * E"
      using Mr(1) E0 by (intro mult_right_mono) simp_all
    then have b1: "2 powi binade A \<le> \<bar>r\<bar>"
      using r_lo r0 by (simp add: kE Ah)
    have "(Mr + 1 / 2) * E \<le> P * E"
      using Mr(2) E0 by (intro mult_right_mono) simp_all
    then have b2: "\<bar>r\<bar> < 2 powi (binade A + 1)"
      using r_hi r0 by (simp add: kE' Ah)
    have "round_bits p r = real_of_int (rne (r / 2 powi (binade A - int p + 1))) * 2 powi (binade A - int p + 1)"
      by (rule round_bits_eval [OF r0(1) b1 b2])
    then have rr: "round_bits p r = real_of_int (rne (r / E)) * E"
      by (simp add: E_def e_def)
    have "(Mr - 1 / 2) * E < r" "r < (Mr + 1 / 2) * E"
      using r_lo r_hi by (simp_all add: Ah)
    then have "Mr - 1 / 2 < r / E" "r / E < Mr + 1 / 2"
      using E0 by (simp_all add: pos_less_divide_eq pos_divide_less_eq)
    then have "\<bar>r / E - real_of_int M\<bar> < 1 / 2"
      unfolding Mr_def by linarith
    then have "rne (r / E) = M" by (rule rne_near)
    with rr have "round_bits p r = A" by (simp add: AM)
    then show ?thesis
      by (simp add: r_def y_def A_def)
  qed
qed

text \<open>The two formats in use.\<close>

lemma fl32_of_int: "\<bar>n\<bar> \<le> 16777216 \<Longrightarrow> fl32 (real_of_int n) = real_of_int n"
  unfolding fl32_def by (rule round_bits_of_int) simp_all

lemma fl32_0 [simp]: "fl32 0 = 0"
  by (simp add: fl32_def)

lemma fl32_numeral: "numeral k \<le> (16777216::int) \<Longrightarrow> fl32 (numeral k) = numeral k"
  using fl32_of_int [of "numeral k"] by simp

lemma fl32_1 [simp]: "fl32 1 = 1"
  using fl32_of_int [of 1] by simp

lemma fl32_minus: "fl32 (- x) = - fl32 x"
  by (simp add: fl32_def round_bits_minus)

lemma fl64_of_int: "\<bar>n\<bar> \<le> 9007199254740992 \<Longrightarrow> fl64 (real_of_int n) = real_of_int n"
  unfolding fl64_def by (rule round_bits_of_int) simp_all

lemma fl64_0 [simp]: "fl64 0 = 0"
  by (simp add: fl64_def)

lemma fl64_1 [simp]: "fl64 1 = 1"
  using fl64_of_int [of 1] by simp

lemma fl64_minus: "fl64 (- x) = - fl64 x"
  by (simp add: fl64_def round_bits_minus)

lemma fl64_pos: "0 < x \<Longrightarrow> 0 < fl64 x"
  unfolding fl64_def by (rule round_bits_pos) simp_all

lemma fl64_dyadic:
  "\<bar>n\<bar> \<le> 9007199254740992 \<Longrightarrow> fl64 (real_of_int n / 2 ^ j) = real_of_int n / 2 ^ j"
  unfolding fl64_def by (rule round_bits_dyadic) simp_all

lemma fl32_half: "\<bar>n\<bar> \<le> 16777216 \<Longrightarrow> fl32 (real_of_int n / 2) = real_of_int n / 2"
  unfolding fl32_def using round_bits_dyadic [of n 24 1] by simp

lemma fl32_quarter: "\<bar>n\<bar> \<le> 16777216 \<Longrightarrow> fl32 (real_of_int n / 4) = real_of_int n / 4"
  unfolding fl32_def using round_bits_dyadic [of n 24 2] by simp

lemma fl32_idem [simp]: "fl32 (fl32 x) = fl32 x"
  unfolding fl32_def by (rule round_bits_idem) simp

lemma fl32_pos: "0 < x \<Longrightarrow> 0 < fl32 x"
  unfolding fl32_def by (rule round_bits_pos) simp_all

lemma fl32_neg: "x < 0 \<Longrightarrow> fl32 x < 0"
  unfolding fl32_def by (rule round_bits_neg) simp_all

lemma fl32_nonneg: "0 \<le> x \<Longrightarrow> 0 \<le> fl32 x"
  unfolding fl32_def by (rule round_bits_nonneg) simp_all

lemma fl32_nonpos: "x \<le> 0 \<Longrightarrow> fl32 x \<le> 0"
  unfolding fl32_def by (rule round_bits_nonpos) simp_all

lemma fl32_eq_0_iff [simp]: "fl32 x = 0 \<longleftrightarrow> x = 0"
proof
  assume "fl32 x = 0"
  show "x = 0"
  proof (rule ccontr)
    assume "x \<noteq> 0"
    then consider "0 < x" | "x < 0" by linarith
    then show False
      using fl32_pos [of x] fl32_neg [of x] \<open>fl32 x = 0\<close> by cases simp_all
  qed
qed simp

lemma fl32_less_0_iff [simp]: "fl32 x < 0 \<longleftrightarrow> x < 0"
proof
  assume "fl32 x < 0"
  show "x < 0"
  proof (rule ccontr)
    assume "\<not> x < 0"
    then have "0 \<le> fl32 x" by (intro fl32_nonneg) simp
    with \<open>fl32 x < 0\<close> show False by simp
  qed
qed (rule fl32_neg)

lemma fl32_pos_iff [simp]: "0 < fl32 x \<longleftrightarrow> 0 < x"
proof
  assume "0 < fl32 x"
  show "0 < x"
  proof (rule ccontr)
    assume "\<not> 0 < x"
    then have "fl32 x \<le> 0" by (intro fl32_nonpos) simp
    with \<open>0 < fl32 x\<close> show False by simp
  qed
qed (rule fl32_pos)

lemma fl32_le_0_iff [simp]: "fl32 x \<le> 0 \<longleftrightarrow> x \<le> 0"
  using fl32_pos_iff [of x] by linarith

lemma fl32_ge_0_iff [simp]: "0 \<le> fl32 x \<longleftrightarrow> 0 \<le> x"
  using fl32_less_0_iff [of x] by linarith

lemma fl32_le_int:
  "\<bar>n\<bar> \<le> 16777216 \<Longrightarrow> x \<le> real_of_int n \<Longrightarrow> fl32 x \<le> real_of_int n"
  unfolding fl32_def by (rule round_bits_le_int) simp_all

lemma fl32_ge_int:
  "\<bar>n\<bar> \<le> 16777216 \<Longrightarrow> real_of_int n \<le> x \<Longrightarrow> real_of_int n \<le> fl32 x"
  unfolding fl32_def by (rule round_bits_ge_int) simp_all

lemma fl32_sqrt_square:
  "0 < a \<Longrightarrow> a < 16777216 \<Longrightarrow> fl32 (sqrt (fl32 ((real_of_int a)\<^sup>2))) = real_of_int a"
  unfolding fl32_def by (rule round_bits_sqrt_square) simp_all

lemma fl32_neg_numeral: "numeral k \<le> (16777216::int) \<Longrightarrow> fl32 (- numeral k) = - numeral k"
  by (simp add: fl32_minus fl32_numeral)

lemma fl32_neg_1 [simp]: "fl32 (- 1) = - 1"
  by (simp add: fl32_minus)

subsection \<open>Aspect-ratio gate\<close>

text \<open>The doubles that occur at the sizes named by the claim.\<close>

lemma fl64_hundredth: "fl64 (1 / 100) = 5764607523034235 / 576460752303423488"
  unfolding fl64_def by (subst round_bits_eval_small [where j = 59]) (simp_all add: rne_def)

lemma fl64_100_101: "fl64 (100 / 101) = 1114752383012499 / 1125899906842624"
  unfolding fl64_def by (subst round_bits_eval_small [where j = 53]) (simp_all add: rne_def)

lemma fl64_100_110: "fl64 (100 / 110) = 8188362958855447 / 9007199254740992"
  unfolding fl64_def by (subst round_bits_eval_small [where j = 53]) (simp_all add: rne_def)

lemma fl64_101_100: "fl64 (101 / 100) = 4548635623644201 / 4503599627370496"
  unfolding fl64_def by (subst round_bits_eval_small [where j = 52]) (simp_all add: rne_def)

lemma fl64_diff_101: "fl64 (11147523830125 / 1125899906842624) = 11147523830125 / 1125899906842624"
  using fl64_dyadic [of 11147523830125 50] by simp

lemma fl64_diff_110: "fl64 (818836295885545 / 9007199254740992) = 818836295885545 / 9007199254740992"
  using fl64_dyadic [of 818836295885545 53] by simp

lemma fl64_diff_wide: "fl64 (45035996273705 / 4503599627370496) = 45035996273705 / 4503599627370496"
  using fl64_dyadic [of 45035996273705 52] by simp

lemma check_aspect_ratio_nonzero:
  assumes "0 < width img1" "0 < height img1" "0 < height img2"
  shows "check_aspect_ratio img1 img2 tolerance =
     Inr (fl64 (\<bar>fl64 (fl64 (real (width img1) / real (height img1))
                        - fl64 (real (width img2) / real (height img2)))\<bar>
                / fl64 (real (width img1) / real (height img1))) \<le> tolerance)"
proof -
  have "0 < fl64 (real (width img1) / real (height img1))"
    using assms by (intro fl64_pos) simp
  then show ?thesis
    using assms by (simp add: check_aspect_ratio_def py_truediv_def)
qed

lemma check_aspect_ratio_100_101:
  "check_aspect_ratio (blank 100 100) (blank 100 101) (fl64 (1 / 100)) = Inr True"
proof -
  have d: "fl64 (1 - 1114752383012499 / 1125899906842624) = 11147523830125 / 1125899906842624"
    using fl64_diff_101 by simp
  show ?thesis
    by (simp add: check_aspect_ratio_def py_truediv_def blank_def fl64_100_101 d
        fl64_diff_101 fl64_hundredth)
qed

lemma check_aspect_ratio_100_110:
  "check_aspect_ratio (blank 100 100) (blank 100 110) (fl64 (1 / 100)) = Inr False"
proof -
  have r: "fl64 (10 / 11) = 8188362958855447 / 9007199254740992"
    using fl64_100_110 by simp
  have d: "fl64 (1 - 8188362958855447 / 9007199254740992) = 818836295885545 / 9007199254740992"
    using fl64_diff_110 by simp
  show ?thesis
    by (simp add: check_aspect_ratio_def py_truediv_def blank_def r d
        fl64_diff_110 fl64_hundredth)
qed

lemma check_aspect_ratio_101_100:
  "check_aspect_ratio (blank 100 100) (blank 101 100) (fl64 (1 / 100)) = Inr False"
proof -
  show ?thesis
    by (simp add: check_aspect_ratio_def py_truediv_def blank_def fl64_101_100 fl64_minus
        fl64_diff_wide fl64_hundredth)
qed

text \<open>
  At 100 by 100 against 101 by 100 the exact relative difference is the tolerance
  \<open>1 / 100\<close> itself, but the rounded one is larger than the rounded tolerance.
\<close>

lemma check_aspect_ratio_rounding:
  "check_aspect_ratio (blank 100 100) (blank 101 100) (fl64 (1 / 100)) = Inr False
   \<and> \<bar>(100::real) / 100 - 101 / 100\<bar> / (100 / 100) \<le> 1 / 100"
  using check_aspect_ratio_101_100 by simp

text \<open>
  Claim C8. For images with non-zero width and height, \<open>check_aspect_ratio\<close> returns
  true exactly when \<open>|ratio1 - ratio2| / ratio1 \<le> tolerance\<close>, where each ratio is
  width over height and every operation is the Python float operation (the quotients
  and the difference are rounded to binary64). For sizes 100 by 100 and 100 by 101 with
  tolerance 0.01 it returns true; for 100 by 100 and 100 by 110 it returns false.
\<close>

theorem check_aspect_ratio_spec:
  "(0 < width img1 \<and> 0 < height img1 \<and> 0 < height img2 \<longrightarrow>
      check_aspect_ratio img1 img2 tolerance =
        Inr (fl64 (\<bar>fl64 (fl64 (real (width img1) / real (height img1))
                           - fl64 (real (width img2) / real (height img2)))\<bar>
                   / fl64 (real (width img1) / real (height img1))) \<le> tolerance))
   \<and> check_aspect_ratio (blank 100 100) (blank 100 101) (fl64 (1 / 100)) = Inr True
   \<and> check_aspect_ratio (blank 100 100) (blank 100 110) (fl64 (1 / 100)) = Inr False"
  using check_aspect_ratio_nonzero [of img1 img2 tolerance]
    check_aspect_ratio_100_101 check_aspect_ratio_100_110
  by blast

theorem check_aspect_ratio_spec_witness:
  "check_aspect_ratio (blank 4 3) (blank 8 6) 0 = Inr True"
  using check_aspect_ratio_spec [of "blank 4 3" "blank 8 6" 0]
  by (simp add: blank_def)


subsection \<open>White-floor retry loop\<close>

declare retry_loop.simps [simp del]

lemma retry_loop_timeouts:
  "(\<forall>j<k. \<exists>msg. svc (calls w + j) = Raises msg \<and> is_timeout msg) \<Longrightarrow>
   int (a + k) < max_retries \<Longrightarrow>
   retry_loop svc max_retries a w =
     retry_loop svc max_retries (a + k)
       (w\<lparr>calls := calls w + k, sleeps := sleeps w @ map (\<lambda>i. 2 ^ i) [a..<a + k]\<rparr>)"
proof (induction k arbitrary: a w)
  case 0
  then show ?case by simp
next
  case (Suc k)
  from Suc.prems(1) obtain msg where m: "svc (calls w) = Raises msg" "is_timeout msg"
    by force
  let ?w = "w\<lparr>calls := calls w + 1, sleeps := sleeps w @ [2 ^ a]\<rparr>"
  have step: "retry_loop svc max_retries a w = retry_loop svc max_retries (a + 1) ?w"
    using m Suc.prems(2) by (subst retry_loop.simps) simp
  have later: "\<forall>j<k. \<exists>msg. svc (calls ?w + j) = Raises msg \<and> is_timeout msg"
  proof (intro allI impI)
    fix j assume "j < k"
    then have "Suc j < Suc k" by simp
    with Suc.prems(1) have "\<exists>msg. svc (calls w + Suc j) = Raises msg \<and> is_timeout msg"
      by blast
    then show "\<exists>msg. svc (calls ?w + j) = Raises msg \<and> is_timeout msg"
      by simp
  qed
  have "retry_loop svc max_retries (a + 1) ?w =
        retry_loop svc max_retries (a + 1 + k)
          (?w\<lparr>calls := calls ?w + k, sleeps := sleeps ?w @ map (\<lambda>i. 2 ^ i) [a + 1..<a + 1 + k]\<rparr>)"
    using Suc.prems(2) by (intro Suc.IH [OF later]) simp
  moreover have "[a..<a + Suc k] = a # [a + 1..<a + 1 + k]"
    by (simp add: upt_conv_Cons)
  ultimately show ?case
    using step by simp
qed

lemma retry_loop_last_call:
  "int a < max_retries \<Longrightarrow>
   retry_loop svc max_retries a w = (r, w') \<Longrightarrow>
   calls w < calls w' \<and> int (calls w') - int (calls w) \<le> max_retries - int a \<and>
   (case svc (calls w' - 1) of
      Returns response \<Rightarrow>
        r = (case first_image response of
               Some data \<Rightarrow> Success data
             | None \<Rightarrow> Failure ''No image data in response'')
    | Raises error_msg \<Rightarrow> r = Failure error_msg)"
proof (induction svc max_retries a w rule: retry_loop.induct)
  case (1 svc max_retries attempt w)
  show ?case
  proof (cases "svc (calls w)")
    case (Returns response)
    with "1.prems" show ?thesis
      by (subst (asm) retry_loop.simps) (auto simp: Let_def split: option.splits)
  next
    case (Raises error_msg)
    show ?thesis
    proof (cases "is_timeout error_msg \<and> int attempt < max_retries - 1")
      case False
      with Raises "1.prems" show ?thesis
        by (subst (asm) retry_loop.simps) (auto simp: Let_def)
    next
      case True
      let ?w = "w\<lparr>calls := calls w + 1, sleeps := sleeps w @ [2 ^ attempt]\<rparr>"
      have "retry_loop svc max_retries (attempt + 1) ?w = (r, w')"
        using True Raises "1.prems" by (subst (asm) retry_loop.simps) (simp add: Let_def)
      moreover have "int (attempt + 1) < max_retries"
        using True by simp
      ultimately have
        "calls ?w < calls w' \<and> int (calls w') - int (calls ?w) \<le> max_retries - int (attempt + 1) \<and>
         (case svc (calls w' - 1) of
            Returns response \<Rightarrow>
              r = (case first_image response of
                     Some data \<Rightarrow> Success data
                   | None \<Rightarrow> Failure ''No image data in response'')
          | Raises error_msg \<Rightarrow> r = Failure error_msg)"
        using "1.IH" [of "w\<lparr>calls := calls w + 1\<rparr>" error_msg] "1.prems"(1) Raises True
        by simp
      then show ?thesis
        by (auto split: call_outcome.splits)
    qed
  qed
qed

text \<open>
  Claim C4. With \<open>max_retries = 3\<close> and a service whose every call raises an error whose
  message indicates a timeout, \<open>make_white_floor\<close> makes exactly 3 calls, sleeps 1 second
  and then 2 seconds, and returns the failure carrying the last timeout message. When the
  service raises an error whose message does not indicate a timeout (after any number of
  retried timeouts), the failure with that message is returned right after that attempt:
  no further call and no further sleep.
\<close>

theorem make_white_floor_retry_ceiling:
  "(key \<noteq> [] \<and> (\<forall>n. \<exists>msg. svc n = Raises msg \<and> is_timeout msg) \<longrightarrow>
      (\<exists>msg. svc 2 = Raises msg \<and>
         make_white_floor (Some key) svc 3 world0 =
           Inr (Failure msg, \<lparr>calls = 3, sleeps = [1, 2]\<rparr>)))
   \<and> (key \<noteq> [] \<and> int k < max_retries \<and>
        (\<forall>n<k. \<exists>m. svc n = Raises m \<and> is_timeout m) \<and>
        svc k = Raises msg \<and> \<not> is_timeout msg \<longrightarrow>
          make_white_floor (Some key) svc max_retries world0 =
            Inr (Failure msg, \<lparr>calls = k + 1, sleeps = map (\<lambda>i. 2 ^ i) [0..<k]\<rparr>))"
proof (intro conjI impI)
  assume a: "key \<noteq> [] \<and> (\<forall>n. \<exists>msg. svc n = Raises msg \<and> is_timeout msg)"
  then obtain msg where m: "svc 2 = Raises msg" "is_timeout msg"
    by blast
  have "\<forall>j<2. \<exists>msg. svc (calls world0 + j) = Raises msg \<and> is_timeout msg"
    using a by simp
  then have "retry_loop svc 3 0 world0 =
      retry_loop svc 3 (0 + 2)
        (world0\<lparr>calls := calls world0 + 2, sleeps := sleeps world0 @ map (\<lambda>i. 2 ^ i) [0..<0 + 2]\<rparr>)"
    by (rule retry_loop_timeouts) simp
  also have "\<dots> = (Failure msg, \<lparr>calls = 3, sleeps = [1, 2]\<rparr>)"
  proof -
    have "svc (Suc (Suc 0)) = Raises msg"
      using m by (simp add: numeral_2_eq_2)
    then show ?thesis
      by (subst retry_loop.simps) (simp add: world0_def upt_rec Let_def numeral_3_eq_3)
  qed
  finally have "make_white_floor (Some key) svc 3 world0 =
      Inr (Failure msg, \<lparr>calls = 3, sleeps = [1, 2]\<rparr>)"
    using a by (simp add: make_white_floor_def get_client_def)
  with m show "\<exists>msg. svc 2 = Raises msg \<and>
      make_white_floor (Some key) svc 3 world0 = Inr (Failure msg, \<lparr>calls = 3, sleeps = [1, 2]\<rparr>)"
    by blast
next
  assume a: "key \<noteq> [] \<and> int k < max_retries \<and>
        (\<forall>n<k. \<exists>m. svc n = Raises m \<and> is_timeout m) \<and>
        svc k = Raises msg \<and> \<not> is_timeout msg"
  have "\<forall>j<k. \<exists>msg. svc (calls world0 + j) = Raises msg \<and> is_timeout msg"
    using a by (simp add: world0_def)
  then have "retry_loop svc max_retries 0 world0 =
      retry_loop svc max_retries (0 + k)
        (world0\<lparr>calls := calls world0 + k, sleeps := sleeps world0 @ map (\<lambda>i. 2 ^ i) [0..<0 + k]\<rparr>)"
    using a by (intro retry_loop_timeouts) simp_all
  also have "\<dots> = (Failure msg, \<lparr>calls = k + 1, sleeps = map (\<lambda>i. 2 ^ i) [0..<k]\<rparr>)"
    using a by (subst retry_loop.simps) (simp add: world0_def)
  finally show "make_white_floor (Some key) svc max_retries world0 =
      Inr (Failure msg, \<lparr>calls = k + 1, sleeps = map (\<lambda>i. 2 ^ i) [0..<k]\<rparr>)"
    using a by (simp add: make_white_floor_def get_client_def)
qed

theorem make_white_floor_retry_ceiling_witness:
  "make_white_floor (Some ''key'') (\<lambda>n. Raises ''Read timed out'') 3 world0 =
     Inr (Failure ''Read timed out'', \<lparr>calls = 3, sleeps = [1, 2]\<rparr>)
   \<and> make_white_floor (Some ''key'')
        (\<lambda>n. if n < 1 then Raises ''Timeout'' else Raises ''quota exceeded'') 3 world0 =
     Inr (Failure ''quota exceeded'', \<lparr>calls = 2, sleeps = [1]\<rparr>)"
proof -
  have t1: "is_timeout ''Read timed out''" and t2: "is_timeout ''Timeout''"
    and t3: "\<not> is_timeout ''quota exceeded''"
    by (simp_all add: is_timeout_def lower_def lower_char_def)
  show ?thesis
    using make_white_floor_retry_ceiling [of "''key''" "\<lambda>n. Raises ''Read timed out''" 0 0 "[]"]
      make_white_floor_retry_ceiling [of "''key''"
        "\<lambda>n. if n < 1 then Raises ''Timeout'' else Raises ''quota exceeded''" 1 3 "''quota exceeded''"]
      t1 t2 t3
    by (simp add: upt_rec)
qed

text \<open>
  Claim C9, as amended. For every \<open>max_retries \<ge> 1\<close> the return after the loop is never
  reached: \<open>make_white_floor\<close> makes at least one and at most \<open>max_retries\<close> calls, and
  its result is decided by the last call made: success with its image, "No image data in
  response", or the failure carrying the message of the error that call raised. Hence it
  returns the failure "Max retries exceeded" only when the service itself raised an error
  with exactly that message. For \<open>max_retries \<le> 0\<close> it returns the failure
  "Max retries exceeded" without any remote call.
\<close>

theorem make_white_floor_fallthrough:
  "(key \<noteq> [] \<and> 1 \<le> max_retries \<longrightarrow>
      (\<exists>r w. make_white_floor (Some key) svc max_retries world0 = Inr (r, w) \<and>
         1 \<le> calls w \<and> int (calls w) \<le> max_retries \<and>
         (case svc (calls w - 1) of
            Returns response \<Rightarrow>
              r = (case first_image response of
                     Some data \<Rightarrow> Success data
                   | None \<Rightarrow> Failure ''No image data in response'')
          | Raises error_msg \<Rightarrow> r = Failure error_msg) \<and>
         (r = Failure ''Max retries exceeded'' \<longrightarrow>
            svc (calls w - 1) = Raises ''Max retries exceeded'')))
   \<and> (key \<noteq> [] \<and> max_retries \<le> 0 \<longrightarrow>
        make_white_floor (Some key) svc max_retries world0 =
          Inr (Failure ''Max retries exceeded'', world0))"
proof (intro conjI impI)
  assume a: "key \<noteq> [] \<and> 1 \<le> max_retries"
  obtain r w where rw: "retry_loop svc max_retries 0 world0 = (r, w)"
    by (cases "retry_loop svc max_retries 0 world0")
  have b: "calls world0 < calls w \<and> int (calls w) - int (calls world0) \<le> max_retries - int 0 \<and>
     (case svc (calls w - 1) of
        Returns response \<Rightarrow>
          r = (case first_image response of
                 Some data \<Rightarrow> Success data
               | None \<Rightarrow> Failure ''No image data in response'')
      | Raises error_msg \<Rightarrow> r = Failure error_msg)"
    using a by (intro retry_loop_last_call [OF _ rw]) simp
  then have c: "r = Failure ''Max retries exceeded'' \<longrightarrow>
      svc (calls w - 1) = Raises ''Max retries exceeded''"
    by (auto split: call_outcome.splits option.splits)
  have "make_white_floor (Some key) svc max_retries world0 = Inr (r, w)"
    using a rw by (simp add: make_white_floor_def get_client_def)
  with b c show "\<exists>r w. make_white_floor (Some key) svc max_retries world0 = Inr (r, w) \<and>
         1 \<le> calls w \<and> int (calls w) \<le> max_retries \<and>
         (case svc (calls w - 1) of
            Returns response \<Rightarrow>
              r = (case first_image response of
                     Some data \<Rightarrow> Success data
                   | None \<Rightarrow> Failure ''No image data in response'')
          | Raises error_msg \<Rightarrow> r = Failure error_msg) \<and>
         (r = Failure ''Max retries exceeded'' \<longrightarrow>
            svc (calls w - 1) = Raises ''Max retries exceeded'')"
    by (simp add: world0_def)
next
  assume "key \<noteq> [] \<and> max_retries \<le> 0"
  then show "make_white_floor (Some key) svc max_retries world0 =
          Inr (Failure ''Max retries exceeded'', world0)"
    by (simp add: make_white_floor_def get_client_def retry_loop.simps)
qed

theorem make_white_floor_fallthrough_witness:
  "(\<exists>r w. make_white_floor (Some ''key'') (\<lambda>n. Raises ''Max retries exceeded'') 1 world0 = Inr (r, w) \<and>
      r = Failure ''Max retries exceeded'' \<and> calls w = 1)
   \<and> make_white_floor (Some ''key'') (\<lambda>n. Raises ''Max retries exceeded'') 0 world0 =
       Inr (Failure ''Max retries exceeded'', world0)"
proof -
  have "\<not> is_timeout ''Max retries exceeded''"
    by (simp add: is_timeout_def lower_def lower_char_def)
  then have "make_white_floor (Some ''key'') (\<lambda>n. Raises ''Max retries exceeded'') 1 world0 =
      Inr (Failure ''Max retries exceeded'', \<lparr>calls = 1, sleeps = []\<rparr>)"
    by (simp add: make_white_floor_def get_client_def retry_loop.simps world0_def)
  then show ?thesis
    using make_white_floor_fallthrough [of "''key''" 1 "\<lambda>n. Raises ''Max retries exceeded''"]
      make_white_floor_fallthrough [of "''key''" 0 "\<lambda>n. Raises ''Max retries exceeded''"]
    by simp
qed

text \<open>
  The claim as first stated fails: with \<open>max_retries = 3\<close> a service whose first call
  raises an error whose message is "Max retries exceeded" makes the caught-error branch
  return exactly that failure.
\<close>

theorem max_retries_exceeded_counterexample:
  "(1::int) \<le> 3 \<and>
   make_white_floor (Some ''key'') (\<lambda>n. Raises ''Max retries exceeded'') 3 world0 =
     Inr (Failure ''Max retries exceeded'', \<lparr>calls = 1, sleeps = []\<rparr>)"
proof -
  have "\<not> is_timeout ''Max retries exceeded''"
    by (simp add: is_timeout_def lower_def lower_char_def)
  then show ?thesis
    by (simp add: make_white_floor_def get_client_def retry_loop.simps world0_def)
qed
subsection \<open>Directory batch of the background-removal client\<close>













subsection \<open>Visible edges and edge thickness\<close>

lemma vsub_eq_0_iff: "vsub a b = (0, 0) \<longleftrightarrow> a = b"
  by (auto simp: vsub_def prod_eq_iff)

lemma dot_self_eq_0_iff: "dot a a \<le> 0 \<longleftrightarrow> a = (0, 0)"
proof -
  have "0 \<le> fst a * fst a" "0 \<le> snd a * snd a"
    by simp_all
  then have "fl32 (fst a * fst a) + fl32 (snd a * snd a) \<le> 0 \<longleftrightarrow>
      fl32 (fst a * fst a) = 0 \<and> fl32 (snd a * snd a) = 0"
    using fl32_nonneg [of "fst a * fst a"] fl32_nonneg [of "snd a * snd a"] by linarith
  then show ?thesis
    by (simp add: dot_def prod_eq_iff)
qed

lemma linalg_norm_le_0_iff: "linalg_norm a \<le> 0 \<longleftrightarrow> a = (0, 0)"
  by (simp add: linalg_norm_def dot_self_eq_0_iff)

lemma zero_length_iff: "linalg_norm (vsub t s) \<le> 0 \<longleftrightarrow> s = t"
  by (auto simp: linalg_norm_le_0_iff vsub_eq_0_iff)

lemma visible_edge_cases:
  "visible_edge c (name, s, t) =
     (if s \<noteq> t \<and> 0 < snd (outward_normal c s t)
      then Some \<lparr>edge_name = name, edge_start = s, edge_end = t,
                 outward = outward_normal c s t,
                 visibility = max 0 (snd (outward_normal c s t))\<rparr>
      else None)"
  by (simp add: visible_edge_def zero_length_iff edge_visibility_def)




text \<open>
  On a rectangle whose coordinates have absolute value at most \<open>5592405\<close>, the largest
  integer with \<open>3 * n \<le> 2 ^ 24\<close>, every operation of the computation is exact, except
  the product inside a dot product, of which only the sign is used.
\<close>

lemma sum_four_exact:
  fixes a b c d :: int
  assumes "\<bar>a + b\<bar> \<le> 16777216" "\<bar>a + b + c\<bar> \<le> 16777216"
    and "a + b + c + d = 2 * k" "\<bar>k\<bar> \<le> 16777216"
  shows "fl32 (fl32 (fl32 (fl32 (real_of_int a + real_of_int b) + real_of_int c) + real_of_int d) / 4)
           = real_of_int k / 2"
proof -
  have 1: "fl32 (real_of_int a + real_of_int b) = real_of_int (a + b)"
    using fl32_of_int [of "a + b"] assms(1) by simp
  have 2: "fl32 (real_of_int (a + b) + real_of_int c) = real_of_int (a + b + c)"
    using fl32_of_int [of "a + b + c"] assms(2) by simp
  have "real_of_int (a + b + c) + real_of_int d = real_of_int k * 2 powi 1"
    using assms(3) by (simp flip: of_int_add)
  moreover have "fl32 (real_of_int k * 2 powi 1) = real_of_int k * 2 powi 1"
    unfolding fl32_def using assms(4) by (intro round_bits_exact) simp_all
  ultimately have 3: "fl32 (real_of_int (a + b + c) + real_of_int d) = real_of_int k * 2"
    by simp
  have 4: "fl32 (real_of_int k * 2 / 4) = real_of_int k / 2"
    using fl32_half [of k] assms(4) by simp
  show ?thesis
    by (simp only: 1 2 3 4)
qed

lemma mean_point_rectangle:
  fixes x0 x1 y0 y1 :: int
  assumes "\<bar>x0\<bar> \<le> 5592405" "\<bar>x1\<bar> \<le> 5592405" "\<bar>y0\<bar> \<le> 5592405" "\<bar>y1\<bar> \<le> 5592405"
  shows "mean_point [(real_of_int x0, real_of_int y0), (real_of_int x1, real_of_int y0),
                     (real_of_int x1, real_of_int y1), (real_of_int x0, real_of_int y1)]
           = (real_of_int (x0 + x1) / 2, real_of_int (y0 + y1) / 2)"
proof -
  have four: "fl32 4 = 4"
    by (simp add: fl32_numeral)
  have x: "fl32 (fl32 (fl32 (fl32 (real_of_int x0 + real_of_int x1) + real_of_int x1)
      + real_of_int x0) / 4) = real_of_int (x0 + x1) / 2"
    using assms(1,2) by (intro sum_four_exact) simp_all
  have y: "fl32 (fl32 (fl32 (fl32 (real_of_int y0 + real_of_int y0) + real_of_int y1)
      + real_of_int y1) / 4) = real_of_int (y0 + y1) / 2"
    using assms(3,4) by (intro sum_four_exact) simp_all
  show ?thesis
    unfolding mean_point_def vadd_def vdiv_def list.case foldl.simps fst_conv snd_conv
      list.size length_Cons
    using x y by (simp add: four)
qed

lemma float32_array_exact:
  assumes "\<forall>p \<in> set points. \<bar>fst p\<bar> \<le> 16777216 \<and> \<bar>snd p\<bar> \<le> 16777216"
  shows "float32_array points = map (\<lambda>p. (real_of_int (fst p), real_of_int (snd p))) points"
  using assms by (simp add: float32_array_def fl32_of_int)

lemma linalg_norm_axis:
  assumes "\<bar>v\<bar> < 16777216"
  shows "linalg_norm (real_of_int v, 0) = \<bar>real_of_int v\<bar>"
    and "linalg_norm (0, real_of_int v) = \<bar>real_of_int v\<bar>"
proof -
  have sq: "fl32 (sqrt (fl32 (real_of_int v * real_of_int v))) = \<bar>real_of_int v\<bar>"
  proof (cases "v = 0")
    case True
    then show ?thesis by simp
  next
    case False
    then have "0 < \<bar>v\<bar>" by simp
    from fl32_sqrt_square [OF this assms]
    show ?thesis by (simp add: power2_eq_square)
  qed
  show "linalg_norm (real_of_int v, 0) = \<bar>real_of_int v\<bar>"
    using sq by (simp add: linalg_norm_def dot_def)
  show "linalg_norm (0, real_of_int v) = \<bar>real_of_int v\<bar>"
    using sq by (simp add: linalg_norm_def dot_def)
qed

lemma vdiv_axis:
  assumes "v \<noteq> 0"
  shows "vdiv (0, real_of_int v) \<bar>real_of_int v\<bar> = (0, if 0 < v then 1 else - 1)"
    and "vdiv (real_of_int v, 0) \<bar>real_of_int v\<bar> = (if 0 < v then 1 else - 1, 0)"
  using assms by (simp_all add: vdiv_def)

lemma outward_from_parts_horizontal:
  assumes vec: "vsub e s = (V, 0)"
    and tc: "vsub c (vdiv (vadd s e) 2) = (0, T)"
    and sgn: "0 < V * T"
    and norm: "linalg_norm (0, - V) = \<bar>V\<bar>"
  shows "outward_normal c s e = (0, if 0 < V then - 1 else 1)"
proof -
  have V: "V \<noteq> 0"
    using sgn by auto
  have d: "dot (0, - V) (0, T) < 0"
    using sgn by (simp add: dot_def)
  have "outward_normal c s e = vdiv (0, - V) \<bar>V\<bar>"
    using d by (simp add: outward_normal_def Let_def vec tc norm)
  also have "\<dots> = (0, if 0 < V then - 1 else 1)"
    using V by (simp add: vdiv_def)
  finally show ?thesis .
qed

lemma outward_from_parts_vertical:
  assumes vec: "vsub e s = (0, W)"
    and tc: "vsub c (vdiv (vadd s e) 2) = (T, 0)"
    and sgn: "W * T < 0"
    and norm: "linalg_norm (W, 0) = \<bar>W\<bar>"
  shows "outward_normal c s e = (if 0 < W then 1 else - 1, 0)"
proof -
  have W: "W \<noteq> 0"
    using sgn by auto
  have d: "dot (W, 0) (T, 0) < 0"
    using sgn by (simp add: dot_def)
  have "outward_normal c s e = vdiv (W, 0) \<bar>W\<bar>"
    using d by (simp add: outward_normal_def Let_def vec tc norm)
  also have "\<dots> = (if 0 < W then 1 else - 1, 0)"
    using W by (simp add: vdiv_def)
  finally show ?thesis .
qed

lemma midpoint_exact:
  fixes a b :: int
  assumes "\<bar>a\<bar> \<le> 5592405" "\<bar>b\<bar> \<le> 5592405"
  shows "fl32 (fl32 (real_of_int a + real_of_int b) / 2) = real_of_int (a + b) / 2"
proof -
  have s1: "fl32 (real_of_int a + real_of_int b) = real_of_int (a + b)"
    using fl32_of_int [of "a + b"] assms by simp
  have s2: "fl32 (real_of_int (a + b) / 2) = real_of_int (a + b) / 2"
    using assms by (intro fl32_half) simp
  show ?thesis
    by (simp only: s1 s2)
qed

lemma midpoint_same:
  fixes y :: int
  assumes "\<bar>y\<bar> \<le> 5592405"
  shows "fl32 (fl32 (real_of_int y + real_of_int y) / 2) = real_of_int y"
  using midpoint_exact [OF assms assms] by simp

lemma to_center_exact:
  fixes m y :: int
  assumes "\<bar>m - 2 * y\<bar> \<le> 16777216"
  shows "fl32 (real_of_int m / 2 - real_of_int y) = real_of_int (m - 2 * y) / 2"
proof -
  have e: "real_of_int m / 2 - real_of_int y = real_of_int (m - 2 * y) / 2"
    by simp
  show ?thesis
    unfolding e using assms by (rule fl32_half)
qed

lemma difference_exact:
  fixes a b :: int
  assumes "\<bar>a\<bar> \<le> 5592405" "\<bar>b\<bar> \<le> 5592405"
  shows "fl32 (real_of_int b - real_of_int a) = real_of_int (b - a)"
  using fl32_of_int [of "b - a"] assms by simp

lemma outward_horizontal:
  fixes a b y m :: int
  assumes "\<bar>a\<bar> \<le> 5592405" "\<bar>b\<bar> \<le> 5592405" "\<bar>y\<bar> \<le> 5592405"
    and "\<bar>m - 2 * y\<bar> \<le> 16777216"
    and sgn: "0 < (b - a) * (m - 2 * y)"
  shows "outward_normal (real_of_int (a + b) / 2, real_of_int m / 2)
           (real_of_int a, real_of_int y) (real_of_int b, real_of_int y)
         = (0, if a < b then - 1 else 1)"
proof -
  have vec: "vsub (real_of_int b, real_of_int y) (real_of_int a, real_of_int y)
      = (real_of_int (b - a), 0)"
    by (simp only: vsub_def fst_conv snd_conv difference_exact [OF assms(1,2)]) simp
  have tc: "vsub (real_of_int (a + b) / 2, real_of_int m / 2)
        (vdiv (vadd (real_of_int a, real_of_int y) (real_of_int b, real_of_int y)) 2)
      = (0, real_of_int (m - 2 * y) / 2)"
    by (simp only: vadd_def vdiv_def vsub_def fst_conv snd_conv midpoint_exact [OF assms(1,2)]
        midpoint_same [OF assms(3)] to_center_exact [OF assms(4)]) simp
  have "0 < real_of_int ((b - a) * (m - 2 * y))"
    using sgn by (simp only: of_int_0_less_iff)
  then have pos: "0 < real_of_int (b - a) * (real_of_int (m - 2 * y) / 2)"
    by (simp only: of_int_mult)
  have bnd: "\<bar>- (b - a)\<bar> < 16777216"
    using assms(1,2) by simp
  have n: "linalg_norm (0, - real_of_int (b - a)) = \<bar>real_of_int (b - a)\<bar>"
    using linalg_norm_axis(2) [OF bnd] by (simp only: of_int_minus abs_minus_cancel)
  have "outward_normal (real_of_int (a + b) / 2, real_of_int m / 2)
           (real_of_int a, real_of_int y) (real_of_int b, real_of_int y)
      = (0, if 0 < real_of_int (b - a) then - 1 else 1)"
    by (rule outward_from_parts_horizontal [OF vec tc pos n])
  then show ?thesis
    by (simp only: of_int_0_less_iff) simp
qed

lemma outward_vertical:
  fixes a b x m :: int
  assumes "\<bar>a\<bar> \<le> 5592405" "\<bar>b\<bar> \<le> 5592405" "\<bar>x\<bar> \<le> 5592405"
    and "\<bar>m - 2 * x\<bar> \<le> 16777216"
    and sgn: "(b - a) * (m - 2 * x) < 0"
  shows "outward_normal (real_of_int m / 2, real_of_int (a + b) / 2)
           (real_of_int x, real_of_int a) (real_of_int x, real_of_int b)
         = (if a < b then 1 else - 1, 0)"
proof -
  have vec: "vsub (real_of_int x, real_of_int b) (real_of_int x, real_of_int a)
      = (0, real_of_int (b - a))"
    by (simp only: vsub_def fst_conv snd_conv difference_exact [OF assms(1,2)]) simp
  have tc: "vsub (real_of_int m / 2, real_of_int (a + b) / 2)
        (vdiv (vadd (real_of_int x, real_of_int a) (real_of_int x, real_of_int b)) 2)
      = (real_of_int (m - 2 * x) / 2, 0)"
    by (simp only: vadd_def vdiv_def vsub_def fst_conv snd_conv midpoint_exact [OF assms(1,2)]
        midpoint_same [OF assms(3)] to_center_exact [OF assms(4)]) simp
  have "real_of_int ((b - a) * (m - 2 * x)) < 0"
    using sgn by (simp only: of_int_less_0_iff)
  then have neg: "real_of_int (b - a) * (real_of_int (m - 2 * x) / 2) < 0"
    by (simp only: of_int_mult)
  have bnd: "\<bar>b - a\<bar> < 16777216"
    using assms(1,2) by simp
  have n: "linalg_norm (real_of_int (b - a), 0) = \<bar>real_of_int (b - a)\<bar>"
    by (rule linalg_norm_axis(1) [OF bnd])
  have "outward_normal (real_of_int m / 2, real_of_int (a + b) / 2)
           (real_of_int x, real_of_int a) (real_of_int x, real_of_int b)
      = (if 0 < real_of_int (b - a) then 1 else - 1, 0)"
    by (rule outward_from_parts_vertical [OF vec tc neg n])
  then show ?thesis
    by (simp only: of_int_0_less_iff) simp
qed

lemma rectangle_normals:
  fixes x0 x1 y0 y1 :: int
  assumes lt: "x0 < x1" "y0 < y1"
    and hx: "\<bar>x0\<bar> \<le> 5592405" "\<bar>x1\<bar> \<le> 5592405"
    and hy: "\<bar>y0\<bar> \<le> 5592405" "\<bar>y1\<bar> \<le> 5592405"
  defines "c \<equiv> (real_of_int (x0 + x1) / 2, real_of_int (y0 + y1) / 2)"
  shows "mean_point [(real_of_int x0, real_of_int y0), (real_of_int x1, real_of_int y0),
                     (real_of_int x1, real_of_int y1), (real_of_int x0, real_of_int y1)] = c"
    and "outward_normal c (real_of_int x0, real_of_int y0) (real_of_int x1, real_of_int y0) = (0, - 1)"
    and "outward_normal c (real_of_int x1, real_of_int y0) (real_of_int x1, real_of_int y1) = (1, 0)"
    and "outward_normal c (real_of_int x1, real_of_int y1) (real_of_int x0, real_of_int y1) = (0, 1)"
    and "outward_normal c (real_of_int x0, real_of_int y1) (real_of_int x0, real_of_int y0) = (- 1, 0)"
proof -
  show "mean_point [(real_of_int x0, real_of_int y0), (real_of_int x1, real_of_int y0),
                     (real_of_int x1, real_of_int y1), (real_of_int x0, real_of_int y1)] = c"
    unfolding c_def by (rule mean_point_rectangle [OF hx hy])
  have pos: "0 < (x1 - x0) * (y1 - y0)"
    using lt by simp
  have b0: "\<bar>y0 + y1 - 2 * y0\<bar> \<le> 16777216" and b1: "\<bar>y0 + y1 - 2 * y1\<bar> \<le> 16777216"
    and b2: "\<bar>x0 + x1 - 2 * x0\<bar> \<le> 16777216" and b3: "\<bar>x0 + x1 - 2 * x1\<bar> \<le> 16777216"
    using hx hy by simp_all
  have "0 < (x1 - x0) * (y0 + y1 - 2 * y0)"
    using pos by (simp add: algebra_simps)
  from outward_horizontal [OF hx(1) hx(2) hy(1) b0 this]
  show "outward_normal c (real_of_int x0, real_of_int y0) (real_of_int x1, real_of_int y0) = (0, - 1)"
    using lt by (simp add: c_def)
  have "(y1 - y0) * (x0 + x1 - 2 * x1) < 0"
    using pos by (simp add: algebra_simps)
  from outward_vertical [OF hy(1) hy(2) hx(2) b3 this]
  show "outward_normal c (real_of_int x1, real_of_int y0) (real_of_int x1, real_of_int y1) = (1, 0)"
    using lt by (simp add: c_def)
  have "0 < (x0 - x1) * (y0 + y1 - 2 * y1)"
    using pos by (simp add: algebra_simps)
  from outward_horizontal [OF hx(2) hx(1) hy(2) b1 this]
  show "outward_normal c (real_of_int x1, real_of_int y1) (real_of_int x0, real_of_int y1) = (0, 1)"
    using lt by (simp add: c_def add.commute)
  have "(y0 - y1) * (x0 + x1 - 2 * x0) < 0"
    using pos by (simp add: algebra_simps)
  from outward_vertical [OF hy(2) hy(1) hx(1) b2 this]
  show "outward_normal c (real_of_int x0, real_of_int y1) (real_of_int x0, real_of_int y0) = (- 1, 0)"
    using lt by (simp add: c_def add.commute)
qed

lemma rectangle_visible_edges:
  fixes x0 x1 y0 y1 :: int
  assumes lt: "x0 < x1" "y0 < y1"
    and hx: "\<bar>x0\<bar> \<le> 5592405" "\<bar>x1\<bar> \<le> 5592405"
    and hy: "\<bar>y0\<bar> \<le> 5592405" "\<bar>y1\<bar> \<le> 5592405"
  shows "get_visible_edges [(x0, y0), (x1, y0), (x1, y1), (x0, y1)] =
     Inr [\<lparr>edge_name = ''bottom'', edge_start = (real_of_int x1, real_of_int y1),
           edge_end = (real_of_int x0, real_of_int y1), outward = (0, 1), visibility = 1\<rparr>]"
proof -
  define X0 X1 Y0 Y1 where "X0 = real_of_int x0" and "X1 = real_of_int x1"
    and "Y0 = real_of_int y0" and "Y1 = real_of_int y1"
  define c where "c = (real_of_int (x0 + x1) / 2, real_of_int (y0 + y1) / 2)"
  note n = rectangle_normals [OF lt hx hy, folded c_def X0_def X1_def Y0_def Y1_def]
  have pts: "float32_array [(x0, y0), (x1, y0), (x1, y1), (x0, y1)]
      = [(X0, Y0), (X1, Y0), (X1, Y1), (X0, Y1)]"
    using hx hy by (simp add: float32_array_def fl32_of_int X0_def X1_def Y0_def Y1_def)
  have ne: "X0 \<noteq> X1" "Y0 \<noteq> Y1"
    using lt by (simp_all add: X0_def X1_def Y0_def Y1_def)
  show ?thesis
    unfolding X0_def [symmetric] X1_def [symmetric] Y0_def [symmetric] Y1_def [symmetric]
    using ne
    by (simp add: get_visible_edges_def Let_def pts n quad_edges_def visible_edge_cases
        List.map_filter_simps)
qed

lemma fl32_half_one [simp]: "fl32 (1 / 2) = 1 / 2"
  using fl32_half [of 1] by simp

lemma fl32_above_2_24:
  "fl32 16777217 = 16777216" "fl32 16777219 = 16777220" "fl32 22369627 = 22369628"
proof -
  show "fl32 16777217 = 16777216"
    unfolding fl32_def by (subst round_bits_eval_large [where j = 1]) (simp_all add: rne_def)
  show "fl32 16777219 = 16777220"
    unfolding fl32_def by (subst round_bits_eval_large [where j = 1]) (simp_all add: rne_def)
  show "fl32 22369627 = 22369628"
    unfolding fl32_def by (subst round_bits_eval_large [where j = 1]) (simp_all add: rne_def)
qed







lemma edge_samples_member:
  "(point, t) \<in> set (edge_samples thickness h e) \<Longrightarrow>
   t = local_thickness thickness (depth_ratio h point)"
  by (auto simp: edge_samples_def)

lemma edge_samples_first:
  assumes "fl32 (fst (edge_start e)) = fst (edge_start e)"
    and "fl32 (snd (edge_start e)) = snd (edge_start e)"
  shows "(edge_start e, local_thickness thickness (depth_ratio h (edge_start e)))
     \<in> set (edge_samples thickness h e)"
proof -
  have "sample_point e 0 = edge_start e"
    using assms by (simp add: sample_point_def vadd_def smul_def prod_eq_iff)
  moreover have "0 < num_samples e"
    unfolding num_samples_def by simp
  then have "0 \<in> set [0..<num_samples e]"
    by simp
  ultimately show ?thesis
    unfolding edge_samples_def by force
qed

lemma local_thickness_range:
  assumes "4 \<le> thickness" "thickness \<le> 16777216" "0 \<le> r" "r \<le> 1"
  shows "4 \<le> local_thickness thickness r"
    and "local_thickness thickness r \<le> real_of_int thickness"
    and "r = 0 \<longrightarrow> local_thickness thickness r = 4"
    and "r = 1 \<longrightarrow> local_thickness thickness r = real_of_int thickness"
proof -
  define d where "d = real_of_int (thickness - 4)"
  define x where "x = fl32 (d * r)"
  have d1: "fl32 d = d"
    unfolding d_def using assms(1,2) by (intro fl32_of_int) simp
  have d: "0 \<le> d"
    using assms(1) by (simp add: d_def)
  have four: "fl32 4 = 4"
    by (simp add: fl32_numeral)
  have "local_thickness thickness r = fl32 (fl32 4 + fl32 (fl32 d * r))"
    by (simp only: local_thickness_def min_thickness_def d_def of_int_numeral)
  then have lt: "local_thickness thickness r = fl32 (4 + x)"
    by (simp only: four d1 x_def)
  have "0 \<le> d * r"
    using d assms(3) by simp
  then have x0: "0 \<le> x"
    by (simp add: x_def)
  have "d * r \<le> d * 1"
    using d assms(4) by (intro mult_left_mono) simp_all
  then have "d * r \<le> real_of_int (thickness - 4)"
    by (simp add: d_def)
  then have x1: "x \<le> real_of_int (thickness - 4)"
    unfolding x_def using assms(1,2) by (intro fl32_le_int) simp_all
  have "real_of_int 4 \<le> 4 + x"
    using x0 by simp
  from fl32_ge_int [OF _ this] show "4 \<le> local_thickness thickness r"
    by (simp add: lt)
  have "4 + x \<le> real_of_int thickness"
    using x1 by simp
  from fl32_le_int [OF _ this] assms(1,2) show "local_thickness thickness r \<le> real_of_int thickness"
    by (simp add: lt)
  show "r = 0 \<longrightarrow> local_thickness thickness r = 4"
  proof
    assume "r = 0"
    then have "x = 0"
      by (simp add: x_def)
    then show "local_thickness thickness r = 4"
      unfolding lt by (simp add: four)
  qed
  have e: "fl32 (4 + d) = real_of_int thickness"
    using fl32_of_int [of thickness] assms(1,2) by (simp add: d_def)
  show "r = 1 \<longrightarrow> local_thickness thickness r = real_of_int thickness"
  proof
    assume "r = 1"
    then have "x = d"
      by (simp add: x_def d1)
    then show "local_thickness thickness r = real_of_int thickness"
      unfolding lt by (simp add: e)
  qed
qed

text \<open>
  Claim C2, as amended. The code does not clamp \<open>thickness\<close>. When
  \<open>4 \<le> thickness \<le> 2 ^ 24\<close>, every sampled point of a visible edge whose depth ratio
  lies in \<open>[0, 1]\<close> has a local thickness, computed in \<open>float32\<close> as
  \<open>4 + (thickness - 4) * depth_ratio\<close>, that lies in \<open>[4, thickness]\<close>; it is 4 at
  depth ratio 0 and \<open>thickness\<close> at depth ratio 1.
\<close>

theorem local_thickness_bounds:
  "4 \<le> thickness \<and> thickness \<le> 16777216 \<and> 0 < h \<and>
   thickness_samples thickness h dst_points = Inr samples \<and>
   (point, t) \<in> set samples \<and> 0 \<le> depth_ratio h point \<and> depth_ratio h point \<le> 1 \<longrightarrow>
     t = local_thickness thickness (depth_ratio h point) \<and>
     4 \<le> t \<and> t \<le> real_of_int thickness \<and>
     (depth_ratio h point = 0 \<longrightarrow> t = 4) \<and>
     (depth_ratio h point = 1 \<longrightarrow> t = real_of_int thickness)"
proof
  assume a: "4 \<le> thickness \<and> thickness \<le> 16777216 \<and> 0 < h \<and>
   thickness_samples thickness h dst_points = Inr samples \<and>
   (point, t) \<in> set samples \<and> 0 \<le> depth_ratio h point \<and> depth_ratio h point \<le> 1"
  then obtain e where "(point, t) \<in> set (edge_samples thickness h e)"
    by (auto simp: thickness_samples_def split: sum.splits)
  then have t: "t = local_thickness thickness (depth_ratio h point)"
    by (rule edge_samples_member)
  from a have r: "4 \<le> thickness" "thickness \<le> 16777216"
    "0 \<le> depth_ratio h point" "depth_ratio h point \<le> 1"
    by simp_all
  show "t = local_thickness thickness (depth_ratio h point) \<and>
     4 \<le> t \<and> t \<le> real_of_int thickness \<and>
     (depth_ratio h point = 0 \<longrightarrow> t = 4) \<and>
     (depth_ratio h point = 1 \<longrightarrow> t = real_of_int thickness)"
    using local_thickness_range [OF r] unfolding t by blast
qed

lemma depth_ratio_bottom: "depth_ratio 3 (4, 3) = 1" "depth_ratio 3 (4, 0) = 0"
  by (simp_all add: depth_ratio_def fl32_numeral)

lemma local_thickness_ends: "local_thickness 7 1 = 7" "local_thickness 7 0 = 4"
  by (simp_all add: local_thickness_def min_thickness_def fl32_numeral)

theorem local_thickness_bounds_witness:
  "thickness_samples 7 3 [(0, 0), (4, 0), (4, 3), (0, 3)] =
     Inr (edge_samples 7 3 \<lparr>edge_name = ''bottom'', edge_start = (4, 3), edge_end = (0, 3),
                            outward = (0, 1), visibility = 1\<rparr>)
   \<and> ((4, 3), 7) \<in> set (edge_samples 7 3 \<lparr>edge_name = ''bottom'', edge_start = (4, 3),
                            edge_end = (0, 3), outward = (0, 1), visibility = 1\<rparr>)
   \<and> depth_ratio 3 (4, 3) = 1
   \<and> thickness_samples 7 3 [(0, - 3), (4, - 3), (4, 0), (0, 0)] =
     Inr (edge_samples 7 3 \<lparr>edge_name = ''bottom'', edge_start = (4, 0), edge_end = (0, 0),
                            outward = (0, 1), visibility = 1\<rparr>)
   \<and> ((4, 0), 4) \<in> set (edge_samples 7 3 \<lparr>edge_name = ''bottom'', edge_start = (4, 0),
                            edge_end = (0, 0), outward = (0, 1), visibility = 1\<rparr>)
   \<and> depth_ratio 3 (4, 0) = 0"
proof -
  let ?b = "\<lparr>edge_name = ''bottom'', edge_start = (4, 3), edge_end = (0, 3),
             outward = (0, 1), visibility = 1\<rparr> :: edge"
  let ?z = "\<lparr>edge_name = ''bottom'', edge_start = (4, 0), edge_end = (0, 0),
             outward = (0, 1), visibility = 1\<rparr> :: edge"
  have s: "thickness_samples 7 3 [(0, 0), (4, 0), (4, 3), (0, 3)] = Inr (edge_samples 7 3 ?b)"
    using rectangle_visible_edges [of 0 4 0 3] by (simp add: thickness_samples_def)
  have m: "((4, 3), 7) \<in> set (edge_samples 7 3 ?b)"
    using edge_samples_first [of ?b 7 3]
    by (simp add: depth_ratio_bottom local_thickness_ends fl32_numeral)
  have s': "thickness_samples 7 3 [(0, - 3), (4, - 3), (4, 0), (0, 0)] = Inr (edge_samples 7 3 ?z)"
    using rectangle_visible_edges [of 0 4 "- 3" 0] by (simp add: thickness_samples_def)
  have m': "((4, 0), 4) \<in> set (edge_samples 7 3 ?z)"
    using edge_samples_first [of ?z 7 3]
    by (simp add: depth_ratio_bottom local_thickness_ends fl32_numeral)
  show ?thesis
    using local_thickness_bounds [of 7 3 "[(0, 0), (4, 0), (4, 3), (0, 3)]"
        "edge_samples 7 3 ?b" "(4, 3)" 7]
      local_thickness_bounds [of 7 3 "[(0, - 3), (4, - 3), (4, 0), (0, 0)]"
        "edge_samples 7 3 ?z" "(4, 0)" 4]
      s m s' m' depth_ratio_bottom
    by simp
qed

lemma fl64_half_one [simp]: "fl64 (1 / 2) = 1 / 2"
  using fl64_dyadic [of 1 1] by simp

lemma unclamped_samples:
  "thickness_samples 2 2 [(0, 0), (2, 0), (2, 2), (0, 2)] =
     Inr [((2, 2), 2), ((1, 2), 2), ((0, 2), 2)]"
proof -
  let ?b = "\<lparr>edge_name = ''bottom'', edge_start = (2, 2), edge_end = (0, 2),
             outward = (0, 1), visibility = 1\<rparr> :: edge"
  have "thickness_samples 2 2 [(0, 0), (2, 0), (2, 2), (0, 2)] = Inr (edge_samples 2 2 ?b)"
    using rectangle_visible_edges [of 0 2 0 2] by (simp add: thickness_samples_def)
  moreover have n: "num_samples ?b = 3"
    by (simp add: num_samples_def vsub_def linalg_norm_def dot_def fl32_numeral fl32_neg_numeral)
  have "depth_ratio 2 (p, 2) = 1" for p
    by (simp add: depth_ratio_def fl32_numeral)
  moreover have "local_thickness 2 1 = 2"
    by (simp add: local_thickness_def min_thickness_def fl32_numeral fl32_neg_numeral)
  moreover have "sample_point ?b 0 = (2, 2)" "sample_point ?b 1 = (1, 2)" "sample_point ?b 2 = (0, 2)"
    by (simp_all add: sample_point_def n vadd_def vsub_def smul_def fl32_numeral fl32_neg_numeral)
  moreover have "[0..<3] = [0, 1, 2]"
    by (simp add: upt_rec)
  ultimately show ?thesis
    by (simp add: edge_samples_def n)
qed

lemma near_bottom_ratio:
  "depth_ratio 4000 (4095, 4000 - 1 / 4096) = 16777215 / 16777216"
proof -
  have "fl32 (16383999 / 16384000) = 16777215 / 16777216"
    unfolding fl32_def by (subst round_bits_eval_small [where j = 24]) (simp_all add: rne_def)
  then show ?thesis
    by (simp add: depth_ratio_def fl32_numeral)
qed

lemma near_bottom_thickness: "local_thickness 5 (16777215 / 16777216) = 5"
proof -
  have r: "fl32 (16777215 / 16777216) = 16777215 / 16777216"
    using round_bits_dyadic [of 16777215 24 24] by (simp add: fl32_def)
  have "fl32 (83886079 / 16777216) = 5"
    unfolding fl32_def by (subst round_bits_eval_small [where j = 21]) (simp_all add: rne_def)
  then show ?thesis
    by (simp add: local_thickness_def min_thickness_def fl32_numeral r)
qed

text \<open>
  A quadrilateral with a slanted bottom edge, on an image 4096 wide and 4000 high.
\<close>

lemma fl32_slanted:
  "fl32 (1 / 4096) = 1 / 4096" "fl32 (3999 / 2) = 3999 / 2" "fl32 (4001 / 2) = 4001 / 2"
  "fl32 (7999 / 2) = 7999 / 2" "fl32 (16383999 / 4096) = 16383999 / 4096"
  using round_bits_dyadic [of 1 24 12] fl32_half [of 3999] fl32_half [of 4001] fl32_half [of 7999]
    round_bits_dyadic [of 16383999 24 12]
  by (simp_all add: fl32_def)

lemma sqrt_slanted: "sqrt 16777216 = 4096" "sqrt 15992001 = 3999"
  by (rule real_sqrt_unique; simp)+

lemma slanted_quad_edges:
  "get_visible_edges [(0, 0), (4096, 1), (4096, 4000), (0, 3999)] =
     Inr [\<lparr>edge_name = ''bottom'', edge_start = (4096, 4000), edge_end = (0, 3999),
           outward = (- (1 / 4096), 1), visibility = 1\<rparr>]"
proof -
  note ev = vadd_def vsub_def vdiv_def dot_def linalg_norm_def fl32_numeral fl32_minus
    fl32_above_2_24 fl32_slanted sqrt_slanted
  have pts: "float32_array [(0, 0), (4096, 1), (4096, 4000), (0, 3999)]
      = [(0, 0), (4096, 1), (4096, 4000), (0, 3999)]"
    by (simp add: float32_array_def fl32_numeral)
  have c: "mean_point [(0, 0), (4096, 1), (4096, 4000), (0, 3999)] = (2048, 2000)"
    by (simp add: mean_point_def ev)
  have top: "outward_normal (2048, 2000) (0, 0) (4096, 1) = (1 / 4096, - 1)"
    by (simp add: outward_normal_def Let_def ev)
  have right: "outward_normal (2048, 2000) (4096, 1) (4096, 4000) = (1, 0)"
    by (simp add: outward_normal_def Let_def ev)
  have bottom: "outward_normal (2048, 2000) (4096, 4000) (0, 3999) = (- (1 / 4096), 1)"
    by (simp add: outward_normal_def Let_def ev)
  have left: "outward_normal (2048, 2000) (0, 3999) (0, 0) = (- 1, 0)"
    by (simp add: outward_normal_def Let_def ev)
  show ?thesis
    by (simp add: get_visible_edges_def Let_def pts c quad_edges_def visible_edge_cases
        top right bottom left List.map_filter_simps)
qed

lemma edge_samples_nth:
  "i < num_samples e \<Longrightarrow>
   (sample_point e i, local_thickness thickness (depth_ratio h (sample_point e i)))
     \<in> set (edge_samples thickness h e)"
  by (force simp: edge_samples_def)

lemma slanted_quad_sample:
  "((4095, 4000 - 1 / 4096), 5) \<in> set (edge_samples 5 4000
      \<lparr>edge_name = ''bottom'', edge_start = (4096, 4000), edge_end = (0, 3999),
       outward = (- (1 / 4096), 1), visibility = 1\<rparr>)"
proof -
  let ?b = "\<lparr>edge_name = ''bottom'', edge_start = (4096, 4000), edge_end = (0, 3999),
             outward = (- (1 / 4096), 1), visibility = 1\<rparr> :: edge"
  note ev = vadd_def vsub_def smul_def dot_def linalg_norm_def fl32_numeral fl32_minus
    fl32_above_2_24 fl32_slanted sqrt_slanted
  have n: "num_samples ?b = 4097"
    by (simp add: num_samples_def ev)
  have t: "fl64 (1 / 4096) = 1 / 4096"
    using fl64_dyadic [of 1 12] by simp
  have p: "sample_point ?b 1 = (4095, 4000 - 1 / 4096)"
    by (simp add: sample_point_def n ev t)
  have "(sample_point ?b 1, local_thickness 5 (depth_ratio 4000 (sample_point ?b 1)))
      \<in> set (edge_samples 5 4000 ?b)"
    by (rule edge_samples_nth) (simp add: n)
  then show ?thesis
    unfolding p near_bottom_ratio near_bottom_thickness .
qed


lemma beyond_float32_thickness: "local_thickness 16777217 1 = 16777216"
  by (simp add: local_thickness_def min_thickness_def fl32_numeral fl32_above_2_24)

text \<open>
  The claim as first stated fails in three ways. A thickness below 4 is accepted unchanged: with
  \<open>thickness = 2\<close> on a 2 by 2 image the three samples of the bottom edge, all at depth
  ratio 1, have local thickness 2. And the local thickness reaches \<open>thickness\<close> below
  depth ratio 1: on an image of height 4000 with \<open>thickness = 5\<close> and the corners
  \<open>(0, 0)\<close>, \<open>(4096, 1)\<close>, \<open>(4096, 4000)\<close>, \<open>(0, 3999)\<close>, the second sample of the
  bottom edge, \<open>(4095, 4000 - 1/4096)\<close>, has depth ratio \<open>1 - 2^-24\<close> and local
  thickness exactly 5. And a thickness that \<open>float32\<close> cannot hold is not reached:
  with \<open>thickness = 2^24 + 1\<close> the local thickness at depth ratio 1 is \<open>2^24\<close>.
\<close>

theorem unclamped_thickness_counterexample:
  "thickness_samples 2 2 [(0, 0), (2, 0), (2, 2), (0, 2)] =
     Inr [((2, 2), 2), ((1, 2), 2), ((0, 2), 2)]
   \<and> depth_ratio 2 (2, 2) = 1 \<and> \<not> (4 \<le> (2::real))
   \<and> thickness_samples 5 4000 [(0, 0), (4096, 1), (4096, 4000), (0, 3999)] =
       Inr (edge_samples 5 4000
             \<lparr>edge_name = ''bottom'', edge_start = (4096, 4000), edge_end = (0, 3999),
              outward = (- (1 / 4096), 1), visibility = 1\<rparr>)
   \<and> ((4095, 4000 - 1 / 4096), 5) \<in> set (edge_samples 5 4000
        \<lparr>edge_name = ''bottom'', edge_start = (4096, 4000), edge_end = (0, 3999),
         outward = (- (1 / 4096), 1), visibility = 1\<rparr>)
   \<and> depth_ratio 4000 (4095, 4000 - 1 / 4096) < 1
   \<and> local_thickness 16777217 1 = 16777216"
proof -
  have d: "depth_ratio 2 (2, 2) = 1"
    by (simp add: depth_ratio_def fl32_numeral)
  have s: "thickness_samples 5 4000 [(0, 0), (4096, 1), (4096, 4000), (0, 3999)] =
       Inr (edge_samples 5 4000
             \<lparr>edge_name = ''bottom'', edge_start = (4096, 4000), edge_end = (0, 3999),
              outward = (- (1 / 4096), 1), visibility = 1\<rparr>)"
    by (simp add: thickness_samples_def slanted_quad_edges)
  have r: "depth_ratio 4000 (4095, 4000 - 1 / 4096) < 1"
    unfolding near_bottom_ratio by simp
  show ?thesis
    using unclamped_samples d s slanted_quad_sample r beyond_float32_thickness by simp
qed


subsection \<open>Edge mask\<close>

lemma jitter_pixel_erodes:
  "jitter_pixel w h cr mj d noise_px xy m p = m p \<or> jitter_pixel w h cr mj d noise_px xy m p = 0"
  by (simp add: jitter_pixel_def Let_def)

lemma fold_erodes:
  fixes m :: "'k \<Rightarrow> nat"
  assumes "\<And>a m p. f a m p = m p \<or> f a m p = 0"
  shows "fold f xs m p = m p \<or> fold f xs m p = 0"
proof (induction xs arbitrary: m)
  case Nil
  show ?case by simp
next
  case (Cons a xs)
  from Cons.IH [of "f a m"] assms [of a m p] show ?case
    by auto
qed

lemma jitter_pass_erodes:
  "jitter_pass w h cr mj d noise_px m p = m p \<or> jitter_pass w h cr mj d noise_px m p = 0"
  unfolding jitter_pass_def
  by (rule fold_erodes, rule fold_erodes, rule jitter_pixel_erodes)

lemma jitter_pass_le:
  "jitter_pass w h cr mj d noise_px m p \<le> m p"
  using jitter_pass_erodes [of w h cr mj d noise_px m p] by auto

lemma create_edge_mask_clean:
  "create_edge_mask rr noise sz radius 0 d =
     (if max 0 (min radius (min (fst sz) (snd sz) div 2)) = 0 then Image_new sz 255
      else case Image_new sz 0 of
             Inl e \<Rightarrow> Inl e
           | Inr canvas \<Rightarrow>
               Inr (rr canvas (0, 0, fst sz - 1, snd sz - 1)
                      (max 0 (min radius (min (fst sz) (snd sz) div 2))) 255))"
  by (simp add: create_edge_mask_def Let_def split: sum.splits)

lemma create_edge_mask_unfold:
  assumes "r = max 0 (min radius (min (fst sz) (snd sz) div 2))" "r \<noteq> 0"
    and "Image_new sz 0 = Inr canvas"
    and "msk = rr canvas (0, 0, fst sz - 1, snd sz - 1) r 255"
  shows "create_edge_mask rr noise sz radius jitter d =
     (if max 0 jitter = 0 \<or> max 0 (min 1 d) = 0 \<or>
         min (max 0 jitter) (min (fst sz) (snd sz) div 2) \<le> 0
      then Inr msk
      else Inr (msk\<lparr>px := jitter_pass (fst sz) (snd sz)
                  (max 0 (min r (min (fst sz) (snd sz) div 2)))
                  (min (max 0 jitter) (min (fst sz) (snd sz) div 2))
                  (max 0 (min 1 d)) (px noise) (px msk)\<rparr>))"
  using assms(2) unfolding create_edge_mask_def Let_def assms(1) [symmetric] assms(3) assms(4)
  by simp

lemma create_edge_mask_jittered:
  "create_edge_mask rr noise sz radius jitter d = create_edge_mask rr noise sz radius 0 d' \<or>
   (\<exists>clean w h cr mj dd. create_edge_mask rr noise sz radius 0 d' = Inr clean \<and>
      create_edge_mask rr noise sz radius jitter d =
        Inr (clean\<lparr>px := jitter_pass w h cr mj dd (px noise) (px clean)\<rparr>))"
proof -
  define r where "r = max 0 (min radius (min (fst sz) (snd sz) div 2))"
  show ?thesis
  proof (cases "r = 0")
    case True
    then have "create_edge_mask rr noise sz radius j dd = Image_new sz 255" for j dd
      unfolding create_edge_mask_def Let_def r_def [symmetric] by simp
    then show ?thesis by simp
  next
    case False
    show ?thesis
    proof (cases "Image_new sz 0")
      case (Inl e)
      with False have "create_edge_mask rr noise sz radius j dd = Inl e" for j dd
        unfolding create_edge_mask_def Let_def r_def [symmetric] by simp
      then show ?thesis by simp
    next
      case (Inr canvas)
      define msk where "msk = rr canvas (0, 0, fst sz - 1, snd sz - 1) r 255"
      note u = create_edge_mask_unfold [where rr = rr, OF r_def False Inr msk_def]
      have clean: "create_edge_mask rr noise sz radius 0 d' = Inr msk"
        by (simp add: u)
      show ?thesis
      proof (cases "max 0 jitter = 0 \<or> max 0 (min 1 d) = 0 \<or>
          min (max 0 jitter) (min (fst sz) (snd sz) div 2) \<le> 0")
        case True
        then have "create_edge_mask rr noise sz radius jitter d = Inr msk"
          by (simp only: u if_True)
        with clean show ?thesis by simp
      next
        case False
        then have "create_edge_mask rr noise sz radius jitter d =
            Inr (msk\<lparr>px := jitter_pass (fst sz) (snd sz)
                  (max 0 (min r (min (fst sz) (snd sz) div 2)))
                  (min (max 0 jitter) (min (fst sz) (snd sz) div 2))
                  (max 0 (min 1 d)) (px noise) (px msk)\<rparr>)"
          by (simp only: u if_False)
        with clean show ?thesis by blast
      qed
    qed
  qed
qed

text \<open>
  Claim C10. For every size, radius, jitter depth, jitter density and noise image,
  \<open>create_edge_mask\<close> fails exactly when the call with \<open>jitter = 0\<close> fails (a negative
  size); otherwise its mask has the size of the clean mask, every pixel is at most the
  clean mask's pixel, being either that pixel or 0, and when the clean mask holds only 0
  and 255 (as a fill of 255 on a zero canvas does) so does the result.
\<close>

theorem create_edge_mask_jitter_erodes:
  "(case create_edge_mask rr noise sz radius 0 d' of
      Inl err \<Rightarrow> create_edge_mask rr noise sz radius jitter d = Inl err
    | Inr clean \<Rightarrow>
        (\<exists>m. create_edge_mask rr noise sz radius jitter d = Inr m \<and>
           width m = width clean \<and> height m = height clean \<and>
           (\<forall>p. px m p \<le> px clean p \<and> (px m p = px clean p \<or> px m p = 0)) \<and>
           ((\<forall>p. px clean p = 0 \<or> px clean p = 255) \<longrightarrow> (\<forall>p. px m p = 0 \<or> px m p = 255))))"
proof (cases "create_edge_mask rr noise sz radius 0 d'")
  case (Inl err)
  with create_edge_mask_jittered [of rr noise sz radius jitter d d'] show ?thesis
    by auto
next
  case (Inr clean)
  from create_edge_mask_jittered [of rr noise sz radius jitter d d']
  consider "create_edge_mask rr noise sz radius jitter d = Inr clean"
    | w h cr mj dd where "create_edge_mask rr noise sz radius jitter d =
        Inr (clean\<lparr>px := jitter_pass w h cr mj dd (px noise) (px clean)\<rparr>)"
    using Inr by auto
  then show ?thesis
  proof cases
    case 1
    with Inr show ?thesis by simp
  next
    case 2
    have "\<forall>p. jitter_pass w h cr mj dd (px noise) (px clean) p \<le> px clean p \<and>
       (jitter_pass w h cr mj dd (px noise) (px clean) p = px clean p \<or>
        jitter_pass w h cr mj dd (px noise) (px clean) p = 0)"
      by (simp add: jitter_pass_le jitter_pass_erodes)
    moreover from this have "(\<forall>p. px clean p = 0 \<or> px clean p = 255) \<longrightarrow>
       (\<forall>p. jitter_pass w h cr mj dd (px noise) (px clean) p = 0 \<or>
            jitter_pass w h cr mj dd (px noise) (px clean) p = 255)"
      by metis
    ultimately show ?thesis
      using Inr 2 by simp
  qed
qed


theorem create_edge_mask_jitter_erodes_witness:
  "\<exists>m. create_edge_mask notched_rectangle (solid 4 4 0) (4, 4) 1 1 1 = Inr m \<and>
       (\<forall>p. px m p \<le> px (notched_rectangle (solid 4 4 0) (0, 0, 3, 3) 1 255) p) \<and>
       (\<forall>p. px m p = 0 \<or> px m p = 255)"
proof -
  have clean: "create_edge_mask notched_rectangle (solid 4 4 0) (4, 4) 1 0 1 =
      Inr (notched_rectangle (solid 4 4 0) (0, 0, 3, 3) 1 255)"
    by (simp add: create_edge_mask_clean Image_new_def)
  have binary: "\<forall>p. px (notched_rectangle (solid 4 4 0) (0, 0, 3, 3) 1 255) p = 0 \<or>
      px (notched_rectangle (solid 4 4 0) (0, 0, 3, 3) 1 255) p = 255"
    by (simp add: notched_rectangle_def solid_def Let_def)
  show ?thesis
    using create_edge_mask_jitter_erodes [where rr = notched_rectangle and noise = "solid 4 4 0"
        and sz = "(4, 4)" and radius = 1 and jitter = 1 and d = 1 and d' = 1]
      binary
    unfolding clean by auto
qed

lemma rounded_rectangle_pixel:
  assumes "dx = (if x < x0 + r then x0 + r - x else if x1 - r < x then x - (x1 - r) else 0)"
    and "dy = (if y < y0 + r then y0 + r - y else if y1 - r < y then y - (y1 - r) else 0)"
    and "0 \<le> x" "0 \<le> y"
  shows "px (ImageDraw_rounded_rectangle img (x0, y0, x1, y1) r fill) (nat x, nat y) =
     (if x0 \<le> x \<and> x \<le> x1 \<and> y0 \<le> y \<and> y \<le> y1 \<and> dx * dx + dy * dy \<le> r * r
      then fill else px img (nat x, nat y))"
  using assms(3,4) unfolding assms(1,2)
  by (simp add: ImageDraw_rounded_rectangle_def Let_def split del: if_split cong: if_cong)

lemma rounded_rectangle_corner:
  assumes "1 \<le> r" "r \<le> w div 2" "r \<le> h div 2" "3 \<le> w" "3 \<le> h"
    and "x = 0 \<or> x = w - 1" "y = 0 \<or> y = h - 1"
  shows "px (ImageDraw_rounded_rectangle (solid (nat w) (nat h) 0) (0, 0, w - 1, h - 1) r 255)
           (nat x, nat y) = 0"
proof -
  have dx: "r = (if x < 0 + r then 0 + r - x else if w - 1 - r < x then x - (w - 1 - r) else 0)"
    using assms by auto
  have dy: "r = (if y < 0 + r then 0 + r - y else if h - 1 - r < y then y - (h - 1 - r) else 0)"
    using assms by auto
  have pos: "0 \<le> x" "0 \<le> y"
    using assms by auto
  have "0 < r * r"
    using assms(1) by simp
  then have far: "\<not> r * r + r * r \<le> r * r"
    by linarith
  have "px (ImageDraw_rounded_rectangle (solid (nat w) (nat h) 0) (0, 0, w - 1, h - 1) r 255)
           (nat x, nat y) =
     (if 0 \<le> x \<and> x \<le> w - 1 \<and> 0 \<le> y \<and> y \<le> h - 1 \<and> r * r + r * r \<le> r * r
      then 255 else px (solid (nat w) (nat h) 0) (nat x, nat y))"
    by (rule rounded_rectangle_pixel [OF dx dy pos])
  also have "\<dots> = px (solid (nat w) (nat h) 0) (nat x, nat y)"
    using far by (simp only: simp_thms if_False)
  finally show ?thesis
    by (simp add: solid_def)
qed

lemma rounded_rectangle_centre:
  assumes "1 \<le> r" "r \<le> w div 2" "r \<le> h div 2" "3 \<le> w" "3 \<le> h"
  shows "px (ImageDraw_rounded_rectangle (solid (nat w) (nat h) 0) (0, 0, w - 1, h - 1) r 255)
           (nat (w div 2), nat (h div 2)) = 255"
proof -
  define dx where
    "dx = (if w div 2 < 0 + r then 0 + r - w div 2
           else if w - 1 - r < w div 2 then w div 2 - (w - 1 - r) else 0)"
  define dy where
    "dy = (if h div 2 < 0 + r then 0 + r - h div 2
           else if h - 1 - r < h div 2 then h div 2 - (h - 1 - r) else 0)"
  have dx: "dx = 0 \<or> dx = 1 \<and> 2 \<le> r"
    using assms unfolding dx_def by auto
  have dy: "dy = 0 \<or> dy = 1 \<and> 2 \<le> r"
    using assms unfolding dy_def by auto
  have "1 * 1 \<le> r * r"
    using assms(1) by (intro mult_mono) simp_all
  then have r1: "1 \<le> r * r"
    by simp
  have r2: "2 \<le> r * r" if "2 \<le> r"
  proof -
    have "2 * 1 \<le> r * r"
      using that by (intro mult_mono) simp_all
    then show ?thesis by simp
  qed
  have le: "dx * dx + dy * dy \<le> r * r"
    using dx dy r1 r2 by auto
  have box: "0 \<le> w div 2 \<and> w div 2 \<le> w - 1 \<and> 0 \<le> h div 2 \<and> h div 2 \<le> h - 1"
    using assms by auto
  then have pos: "0 \<le> w div 2" "0 \<le> h div 2"
    by simp_all
  have "px (ImageDraw_rounded_rectangle (solid (nat w) (nat h) 0) (0, 0, w - 1, h - 1) r 255)
           (nat (w div 2), nat (h div 2)) =
     (if 0 \<le> w div 2 \<and> w div 2 \<le> w - 1 \<and> 0 \<le> h div 2 \<and> h div 2 \<le> h - 1 \<and>
         dx * dx + dy * dy \<le> r * r
      then 255 else px (solid (nat w) (nat h) 0) (nat (w div 2), nat (h div 2)))"
    by (rule rounded_rectangle_pixel [OF dx_def dy_def pos])
  also have "\<dots> = 255"
    using le box by (simp only: simp_thms if_True)
  finally show ?thesis .
qed

text \<open>
  Claim C7, as amended. The radius is clamped to \<open>[0, min(w, h) div 2]\<close>. When the
  clamped radius is 0 (the radius is not positive, or a side is shorter than 2),
  \<open>create_edge_mask\<close> returns the all-opaque mask of the requested size. When the
  radius is positive and both sides are at least 2, a call with non-positive jitter or
  non-positive jitter density returns, unchanged, the mask that the rounded-rectangle
  primitive draws with fill 255 on the zero canvas for the box \<open>(0, 0, w - 1, h - 1)\<close> and
  the clamped radius. When moreover both sides are at least 3, that clean mask has the
  four corner pixels \<open>(0, 0)\<close>, \<open>(w - 1, 0)\<close>, \<open>(w - 1, h - 1)\<close>, \<open>(0, h - 1)\<close> at 0 and the
  centre pixel \<open>(w div 2, h div 2)\<close> at 255.
\<close>

theorem create_edge_mask_clean_cases:
  "((radius \<le> 0 \<or> min w h < 2) \<and> 0 \<le> w \<and> 0 \<le> h \<longrightarrow>
      create_edge_mask rr noise (w, h) radius jitter d = Inr (solid (nat w) (nat h) 255))
   \<and> (0 < radius \<and> 2 \<le> min w h \<and> (jitter \<le> 0 \<or> d \<le> 0) \<longrightarrow>
        create_edge_mask rr noise (w, h) radius jitter d =
          Inr (rr (solid (nat w) (nat h) 0) (0, 0, w - 1, h - 1) (min radius (min w h div 2)) 255))
   \<and> (0 < radius \<and> 3 \<le> w \<and> 3 \<le> h \<and> (jitter \<le> 0 \<or> d \<le> 0) \<longrightarrow>
        (\<exists>m. create_edge_mask ImageDraw_rounded_rectangle noise (w, h) radius jitter d = Inr m \<and>
             width m = nat w \<and> height m = nat h \<and>
             px m (0, 0) = 0 \<and> px m (nat (w - 1), 0) = 0 \<and>
             px m (nat (w - 1), nat (h - 1)) = 0 \<and> px m (0, nat (h - 1)) = 0 \<and>
             px m (nat (w div 2), nat (h div 2)) = 255))"
proof -
  have clean: "create_edge_mask rr' noise (w, h) radius jitter d =
          Inr (rr' (solid (nat w) (nat h) 0) (0, 0, w - 1, h - 1) (min radius (min w h div 2)) 255)"
    if a: "0 < radius \<and> 2 \<le> min w h \<and> (jitter \<le> 0 \<or> d \<le> 0)" for rr'
  proof -
    define r where "r = max 0 (min radius (min (fst (w, h)) (snd (w, h)) div 2))"
    have r: "r = min radius (min w h div 2)" "r \<noteq> 0"
      using a by (auto simp: r_def)
    have canvas: "Image_new (w, h) 0 = Inr (solid (nat w) (nat h) 0)"
      using a by (simp add: Image_new_def)
    define msk where
      "msk = rr' (solid (nat w) (nat h) 0) (0, 0, fst (w, h) - 1, snd (w, h) - 1) r 255"
    from a have "max 0 jitter = 0 \<or> max 0 (min 1 d) = 0"
      by auto
    then have "create_edge_mask rr' noise (w, h) radius jitter d = Inr msk"
      using create_edge_mask_unfold [where rr = rr', OF r_def r(2) canvas msk_def, of noise jitter d]
      by auto
    then show ?thesis
      by (simp add: msk_def r(1))
  qed
  show ?thesis
  proof (intro conjI impI)
    assume a: "(radius \<le> 0 \<or> min w h < 2) \<and> 0 \<le> w \<and> 0 \<le> h"
    then have "max 0 (min radius (min w h div 2)) = 0"
      by auto
    then have "create_edge_mask rr noise (w, h) radius jitter d = Image_new (w, h) 255"
      unfolding create_edge_mask_def Let_def fst_conv snd_conv by simp
    with a show "create_edge_mask rr noise (w, h) radius jitter d = Inr (solid (nat w) (nat h) 255)"
      by (simp add: Image_new_def)
  next
    assume "0 < radius \<and> 2 \<le> min w h \<and> (jitter \<le> 0 \<or> d \<le> 0)"
    then show "create_edge_mask rr noise (w, h) radius jitter d =
          Inr (rr (solid (nat w) (nat h) 0) (0, 0, w - 1, h - 1) (min radius (min w h div 2)) 255)"
      by (rule clean)
  next
    assume a: "0 < radius \<and> 3 \<le> w \<and> 3 \<le> h \<and> (jitter \<le> 0 \<or> d \<le> 0)"
    define r where "r = min radius (min w h div 2)"
    define m where
      "m = ImageDraw_rounded_rectangle (solid (nat w) (nat h) 0) (0, 0, w - 1, h - 1) r 255"
    have r: "1 \<le> r" "r \<le> w div 2" "r \<le> h div 2" "3 \<le> w" "3 \<le> h"
      using a by (auto simp: r_def)
    have "0 < radius \<and> 2 \<le> min w h \<and> (jitter \<le> 0 \<or> d \<le> 0)"
      using a by auto
    then have res: "create_edge_mask ImageDraw_rounded_rectangle noise (w, h) radius jitter d = Inr m"
      unfolding m_def r_def by (rule clean)
    have sz: "width m = nat w" "height m = nat h"
      by (simp_all add: m_def ImageDraw_rounded_rectangle_def solid_def)
    have c1: "px m (nat 0, nat 0) = 0"
      unfolding m_def by (rule rounded_rectangle_corner [OF r]) simp_all
    have c2: "px m (nat (w - 1), nat 0) = 0"
      unfolding m_def by (rule rounded_rectangle_corner [OF r]) simp_all
    have c3: "px m (nat (w - 1), nat (h - 1)) = 0"
      unfolding m_def by (rule rounded_rectangle_corner [OF r]) simp_all
    have c4: "px m (nat 0, nat (h - 1)) = 0"
      unfolding m_def by (rule rounded_rectangle_corner [OF r]) simp_all
    have c5: "px m (nat (w div 2), nat (h div 2)) = 255"
      unfolding m_def by (rule rounded_rectangle_centre [OF r])
    show "\<exists>m. create_edge_mask ImageDraw_rounded_rectangle noise (w, h) radius jitter d = Inr m \<and>
             width m = nat w \<and> height m = nat h \<and>
             px m (0, 0) = 0 \<and> px m (nat (w - 1), 0) = 0 \<and>
             px m (nat (w - 1), nat (h - 1)) = 0 \<and> px m (0, nat (h - 1)) = 0 \<and>
             px m (nat (w div 2), nat (h div 2)) = 255"
      using res sz c1 c2 c3 c4 c5 by (intro exI [of _ m]) simp
  qed
qed

theorem create_edge_mask_clean_cases_witness:
  "create_edge_mask notched_rectangle (solid 3 2 0) (3, 2) 0 3 (2 / 5) = Inr (solid 3 2 255)
   \<and> create_edge_mask notched_rectangle (solid 4 4 0) (4, 4) 1 0 (2 / 5) =
       Inr (notched_rectangle (solid 4 4 0) (0, 0, 3, 3) 1 255)
   \<and> (\<exists>m. create_edge_mask ImageDraw_rounded_rectangle (solid 4 4 0) (4, 4) 1 0 (2 / 5) = Inr m \<and>
          px m (0, 0) = 0 \<and> px m (3, 0) = 0 \<and> px m (3, 3) = 0 \<and> px m (0, 3) = 0 \<and>
          px m (2, 2) = 255)"
  using create_edge_mask_clean_cases [where radius = 0 and w = 3 and h = 2
      and rr = notched_rectangle and noise = "solid 3 2 0" and jitter = 3 and d = "2 / 5"]
    create_edge_mask_clean_cases [where radius = 1 and w = 4 and h = 4
      and rr = notched_rectangle and noise = "solid 4 4 0" and jitter = 0 and d = "2 / 5"]
  by simp blast

text \<open>
  The claim as first stated fails on small images. On a 1 by 1 image the positive radius
  1 is clamped to 0 and the mask is all opaque, so the corner pixel \<open>(0, 0)\<close> is 255. On
  a 2 by 2 image the corner \<open>(w - 1, h - 1)\<close> is the centre \<open>(w div 2, h div 2)\<close>, which
  cannot be both 0 and 255.
\<close>

theorem clamped_radius_counterexample:
  "create_edge_mask notched_rectangle (solid 1 1 0) (1, 1) 1 0 0 = Inr (solid 1 1 255)
   \<and> px (solid 1 1 (255::nat)) (0, 0) = 255
   \<and> (nat (2 - 1), nat (2 - 1)) = (nat (2 div 2), nat (2 div 2))
   \<and> create_edge_mask ImageDraw_rounded_rectangle (solid 2 2 0) (2, 2) 1 0 0 =
       Inr (ImageDraw_rounded_rectangle (solid 2 2 0) (0, 0, 1, 1) 1 255)"
  by (simp add: create_edge_mask_def Image_new_def solid_def)

text \<open>
  The jitter pass decides every pixel on its own: the pixel at \<open>(x, y)\<close> inside the image
  becomes what one loop iteration makes of its own value, and nothing outside changes.
\<close>

lemma jitter_pixel_update:
  "jitter_pixel w h cr mj d n xy m = m(xy := jitter_pixel w h cr mj d n xy (\<lambda>_. m xy) xy)"
  by (rule ext) (simp add: jitter_pixel_def Let_def)

lemma fold_pointwise:
  assumes "\<And>a m. f a m = m(a := g a (m a))" "distinct xs"
  shows "fold f xs m p = (if p \<in> set xs then g p (m p) else m p)"
  using assms(2)
proof (induction xs arbitrary: m)
  case Nil
  show ?case by simp
next
  case (Cons a xs)
  define m' where "m' = f a m"
  have m': "m' p = (if p = a then g a (m a) else m p)"
    using assms(1) [of a m] by (simp add: m'_def)
  from Cons have ih: "fold f xs m' p = (if p \<in> set xs then g p (m' p) else m' p)"
    by simp
  have "fold f (a # xs) m p = fold f xs m' p"
    by (simp add: m'_def)
  with ih m' Cons.prems show ?case
    by auto
qed

lemma fold_rows:
  "fold (\<lambda>y m. fold (\<lambda>x. F (x, y)) xs m) ys m =
   fold F (concat (map (\<lambda>y. map (\<lambda>x. (x, y)) xs) ys)) m"
proof (induction ys arbitrary: m)
  case Nil
  show ?case by simp
next
  case (Cons y ys)
  have "fold (\<lambda>x. F (x, y)) xs m = fold F (map (\<lambda>x. (x, y)) xs) m"
    by (simp add: fold_map comp_def)
  with Cons show ?case by simp
qed

lemma distinct_grid:
  "distinct (concat (map (\<lambda>y. map (\<lambda>x. (x, y)) [0..<a]) [0..<b]))"
  by (induction b) (auto simp: distinct_map inj_on_def)

lemma jitter_pass_pixel:
  "jitter_pass w h cr mj d n m (x, y) =
     (if x < nat w \<and> y < nat h then jitter_pixel w h cr mj d n (x, y) (\<lambda>_. m (x, y)) (x, y)
      else m (x, y))"
proof -
  have "jitter_pass w h cr mj d n m =
      fold (jitter_pixel w h cr mj d n) (concat (map (\<lambda>y. map (\<lambda>x. (x, y)) [0..<nat w]) [0..<nat h])) m"
    unfolding jitter_pass_def by (rule fold_rows)
  moreover have "(x, y) \<in> set (concat (map (\<lambda>y. map (\<lambda>x. (x, y)) [0..<nat w]) [0..<nat h]))
      \<longleftrightarrow> x < nat w \<and> y < nat h"
    by (auto simp: image_iff)
  ultimately show ?thesis
    using fold_pointwise [where f = "jitter_pixel w h cr mj d n"
        and g = "\<lambda>a v. jitter_pixel w h cr mj d n a (\<lambda>_. v) a",
        OF jitter_pixel_update distinct_grid, of "nat w" "nat h" m "(x, y)"]
    by simp
qed

text \<open>
  On a 4 by 4 mask with radius 1, jitter 1, density 1 and an all-zero noise image, the
  opaque border pixel \<open>(1, 0)\<close> is eroded and the inner pixel \<open>(1, 1)\<close> stays opaque.
\<close>

lemma jitter_example:
  "\<exists>m. create_edge_mask notched_rectangle (solid 4 4 0) (4, 4) 1 1 1 = Inr m \<and>
       px (notched_rectangle (solid 4 4 0) (0, 0, 3, 3) 1 255) (1, 0) = 255 \<and>
       px m (1, 0) = 0 \<and> px m (1, 1) = 255"
proof -
  let ?clean = "notched_rectangle (solid 4 4 0) (0, 0, 3, 3) 1 255"
  have c: "Image_new (4, 4) 0 = Inr (solid 4 4 0)"
    by (simp add: Image_new_def)
  have m: "create_edge_mask notched_rectangle (solid 4 4 0) (4, 4) 1 1 1 =
      Inr (?clean\<lparr>px := jitter_pass 4 4 1 1 1 (px (solid 4 4 0)) (px ?clean)\<rparr>)"
    using create_edge_mask_unfold [where rr = notched_rectangle and sz = "(4, 4)" and radius = 1
        and r = 1 and canvas = "solid 4 4 0" and noise = "solid 4 4 0" and jitter = 1 and d = 1,
        OF _ _ c refl]
    by simp
  have clean: "px ?clean (1, 0) = 255" "px ?clean (1, 1) = 255"
    by (simp_all add: notched_rectangle_def solid_def Let_def)
  have "jitter_pass 4 4 1 1 1 (px (solid 4 4 0)) (px ?clean) (1, 0) = 0"
    unfolding jitter_pass_pixel clean
    by (simp add: jitter_pixel_def edge_dist_def solid_def py_round_def Let_def)
  moreover have "jitter_pass 4 4 1 1 1 (px (solid 4 4 0)) (px ?clean) (1, 1) = 255"
    unfolding jitter_pass_pixel clean
    by (simp add: jitter_pixel_def edge_dist_def solid_def py_round_def Let_def)
  ultimately show ?thesis
    using m clean by simp
qed

subsection \<open>Scene compositor: defaults\<close>

text \<open>
  Claim C3, as amended. Called without \<open>rug_thickness\<close> and \<open>texture_strength\<close>,
  \<open>composite_scene\<close> works with thickness 6 and texture strength 0.55, and the thickness
  parameter of \<open>add_thickness_to_visible_edges\<close> likewise defaults to 6. The command line
  defaults \<open>--thickness\<close> to 7 and \<open>--texture-strength\<close> to 0.7 and passes them
  explicitly.
\<close>

theorem composite_scene_defaults:
  "rug_thickness (bind_composite_scene scene no_kwargs) = 6
   \<and> texture_strength (bind_composite_scene scene no_kwargs) = 55 / 100
   \<and> bind_thickness None = 6
   \<and> rug_thickness (main_args scene no_options) = 7
   \<and> texture_strength (main_args scene no_options) = 7 / 10"
  by (simp add: bind_composite_scene_def no_kwargs_def main_args_def no_options_def
      bind_thickness_def or_default_def)

text \<open>
  The claim as first stated fails: the defaults of the two functions are not 7 and 0.7.
\<close>

theorem function_defaults_counterexample:
  "rug_thickness (bind_composite_scene ''room'' no_kwargs) \<noteq> 7
   \<and> bind_thickness None \<noteq> 7
   \<and> texture_strength (bind_composite_scene ''room'' no_kwargs) \<noteq> 7 / 10"
  by (simp add: bind_composite_scene_def no_kwargs_def bind_thickness_def or_default_def)


end
